(* ===== verification/Roq_Prelude.thy ===== *)
theory Roq_Prelude
  imports Main "HOL-Library.Word" "HOL-Library.AList"
begin

text \<open>
  Shared ground of the development: the machine types of the Go sources, the outcome of a call
  that may panic, Go error values with \<open>errors.Is\<close>, \<open>errors.As\<close> and \<open>errors.Join\<close>, Go channels, the
  \<open>io.Reader\<close> helpers the receive path uses, decimal formatting, and the list and association-list
  lemmas the components share.
\<close>

section \<open>Machine types and collections of rules\<close>

type_synonym byte = "8 word"
type_synonym u64 = "64 word"

text \<open>
  \<open>roq_defs\<close> collects the equations that unfold the small operations of the runtime, \<open>roq_inv\<close> the
  preservation lemmas of the component invariants.
\<close>

named_theorems roq_defs
named_theorems roq_inv

section \<open>Outcome of a call\<close>

text \<open>A Go call returns or panics; a panic carries its message.\<close>

datatype 'a outcome = Done 'a | Panic string

primrec bind_outcome :: "'a outcome \<Rightarrow> ('a \<Rightarrow> 'b outcome) \<Rightarrow> 'b outcome" where
  "bind_outcome (Done x) k = k x"
| "bind_outcome (Panic m) k = Panic m"

lemma bind_outcome_assoc:
  "bind_outcome (bind_outcome x f) g = bind_outcome x (\<lambda>y. bind_outcome (f y) g)"
  by (cases x) simp_all

lemma bind_outcome_Done_iff:
  "bind_outcome x k = Done y \<longleftrightarrow> (\<exists>z. x = Done z \<and> k z = Done y)"
  by (cases x) auto

section \<open>Errors\<close>

text \<open>
  The error values that flow through the library: the sentinels of \<open>errors.go\<close>, the standard
  library's sentinels the sources mention, the session error, \<open>quic.StreamError\<close>, wrapped errors
  (\<open>fmt.Errorf\<close> with \<open>%w\<close>), joined errors, errors made on the spot from a text, and the opaque errors of code outside the repository.
\<close>

record SessionError =
  se_code :: u64
  se_reason :: string

datatype goerror =
    errClosed
  | errNilConnection
  | errInvalidOption
  | errDuplicateFlowID
  | SessionErr SessionError
  | io_EOF
  | io_ErrUnexpectedEOF
  | io_ErrShortWrite
  | io_ErrShortBuffer
  | os_ErrDeadlineExceeded
  | context_Canceled
  | quic_StreamError u64
  | Wrapped string goerror
  | Joined "goerror list"
  | errors_New string
  | OtherError nat

text \<open>\<open>errors.Is\<close> follows the chain of wrapped errors, and every branch of a joined one.\<close>

fun errors_Is :: "goerror \<Rightarrow> goerror \<Rightarrow> bool" where
  "errors_Is (Wrapped m e) t = (Wrapped m e = t \<or> errors_Is e t)"
| "errors_Is (Joined es) t = (Joined es = t \<or> list_ex (\<lambda>e. errors_Is e t) es)"
| "errors_Is e t = (e = t)"

text \<open>\<open>errors.As\<close> at a \<open>*quic.StreamError\<close>: the first stream error of the chain.\<close>

fun errors_As_StreamError :: "goerror \<Rightarrow> u64 option" where
  "errors_As_StreamError (quic_StreamError c) = Some c"
| "errors_As_StreamError (Wrapped m e) = errors_As_StreamError e"
| "errors_As_StreamError (Joined es) =
     (case filter (\<lambda>x. x \<noteq> None) (map errors_As_StreamError es) of [] \<Rightarrow> None | r # _ \<Rightarrow> r)"
| "errors_As_StreamError _ = None"

text \<open>\<open>errors.Join\<close> drops nil errors and is nil when nothing is left.\<close>

primrec non_nil :: "'e option list \<Rightarrow> 'e list" where
  "non_nil [] = []"
| "non_nil (x # xs) = (case x of None \<Rightarrow> non_nil xs | Some e \<Rightarrow> e # non_nil xs)"

definition errors_Join :: "goerror option list \<Rightarrow> goerror option" where
  "errors_Join es = (case non_nil es of [] \<Rightarrow> None | y # ys \<Rightarrow> Some (Joined (y # ys)))"

lemma set_non_nil [simp]: "set (non_nil es) = {e. Some e \<in> set es}"
  by (induction es) (auto split: option.splits)

lemma non_nil_Nil_iff: "non_nil es = [] \<longleftrightarrow> (\<forall>e \<in> set es. e = None)"
  by (induction es) (auto split: option.splits)

lemma errors_Join_None_iff: "errors_Join es = None \<longleftrightarrow> (\<forall>e \<in> set es. e = None)"
  by (simp add: errors_Join_def non_nil_Nil_iff [symmetric] split: list.split)

lemma errors_Join_Some: "non_nil es \<noteq> [] \<Longrightarrow> errors_Join es = Some (Joined (non_nil es))"
  by (simp add: errors_Join_def split: list.split)

section \<open>Channels\<close>

text \<open>
  A buffered channel: its capacity, the queued values in order, and whether it is closed. Sending
  on a closed channel and closing a closed channel panic. A receive takes the head of the queue,
  also from a closed channel; from a drained closed channel it returns \<open>ok = false\<close>; otherwise it
  blocks.
\<close>

record 'a chan =
  ch_cap :: nat
  ch_queue :: "'a list"
  ch_closed :: bool

datatype 'a received = Received 'a | RecvClosed | RecvBlock

definition chan_make :: "nat \<Rightarrow> 'a chan" where
  "chan_make n = \<lparr>ch_cap = n, ch_queue = [], ch_closed = False\<rparr>"

text \<open>\<open>select { case c <- v: default: }\<close>: the flag says whether the value was queued.\<close>

definition chan_try_send :: "'a chan \<Rightarrow> 'a \<Rightarrow> (bool \<times> 'a chan) outcome" where
  "chan_try_send c v =
     (if ch_closed c then Panic ''send on closed channel''
      else if length (ch_queue c) < ch_cap c then Done (True, c\<lparr>ch_queue := ch_queue c @ [v]\<rparr>)
      else Done (False, c))"

definition chan_recv :: "'a chan \<Rightarrow> 'a received \<times> 'a chan" where
  "chan_recv c =
     (case ch_queue c of
        v # vs \<Rightarrow> (Received v, c\<lparr>ch_queue := vs\<rparr>)
      | [] \<Rightarrow> (if ch_closed c then RecvClosed else RecvBlock, c))"

definition chan_close :: "'a chan \<Rightarrow> 'a chan outcome" where
  "chan_close c =
     (if ch_closed c then Panic ''close of closed channel'' else Done (c\<lparr>ch_closed := True\<rparr>))"

definition chan_ok :: "'a chan \<Rightarrow> bool" where
  "chan_ok c \<longleftrightarrow> length (ch_queue c) \<le> ch_cap c"

lemma chan_ok_make [simp]: "chan_ok (chan_make n)"
  by (simp add: chan_ok_def chan_make_def)

lemma chan_ok_try_send: "chan_ok c \<Longrightarrow> chan_try_send c v = Done (b, c') \<Longrightarrow> chan_ok c'"
  by (auto simp: chan_ok_def chan_try_send_def split: if_splits)

lemma chan_ok_recv: "chan_ok c \<Longrightarrow> chan_recv c = (r, c') \<Longrightarrow> chan_ok c'"
  by (auto simp: chan_ok_def chan_recv_def split: list.splits if_splits)

lemma chan_ok_close: "chan_ok c \<Longrightarrow> chan_close c = Done c' \<Longrightarrow> chan_ok c'"
  by (auto simp: chan_ok_def chan_close_def split: if_splits)

section \<open>Receive streams and the reading helpers of package io\<close>

text \<open>
  A receive stream is an argument of the receive path: its ID, the bytes it will deliver and the
  error that follows the last of them (\<open>io.EOF\<close> for a finished stream, \<open>quic.StreamError\<close> for a
  reset or cancelled one, another error for a failed connection). The helpers below loop over
  \<open>Read\<close> until they have what they need, so only the byte sequence and the final error matter.
\<close>

record ReceiveStream =
  rs_ID :: int
  rs_data :: "byte list"
  rs_end :: goerror

definition ReadByte :: "ReceiveStream \<Rightarrow> (goerror + byte) \<times> ReceiveStream" where
  "ReadByte r = (case rs_data r of [] \<Rightarrow> (Inl (rs_end r), r) | b # bs \<Rightarrow> (Inr b, r\<lparr>rs_data := bs\<rparr>))"

text \<open>\<open>io.ReadFull\<close> of \<open>n\<close> bytes: a stream that ends part of the way is an unexpected EOF.\<close>

definition io_ReadFull :: "ReceiveStream \<Rightarrow> nat \<Rightarrow> (goerror + byte list) \<times> ReceiveStream" where
  "io_ReadFull r n =
     (if n \<le> length (rs_data r) then (Inr (take n (rs_data r)), r\<lparr>rs_data := drop n (rs_data r)\<rparr>)
      else if rs_data r \<noteq> [] \<and> rs_end r = io_EOF
           then (Inl io_ErrUnexpectedEOF, r\<lparr>rs_data := []\<rparr>)
      else (Inl (rs_end r), r\<lparr>rs_data := []\<rparr>))"

text \<open>
  \<open>bytes.Buffer.ReadFrom(io.LimitReader(r, n))\<close>: the bytes read, the error and the rest of the
  stream. A limit of zero or less reads nothing; \<open>io.EOF\<close> is not reported as an error.
\<close>

definition ReadFrom_Limit :: "ReceiveStream \<Rightarrow> int \<Rightarrow> byte list \<times> goerror option \<times> ReceiveStream" where
  "ReadFrom_Limit r n =
     (let k = nat n; got = take k (rs_data r); r' = r\<lparr>rs_data := drop k (rs_data r)\<rparr> in
      if k \<le> length (rs_data r) then (got, None, r')
      else (got, if rs_end r = io_EOF then None else Some (rs_end r), r'))"

lemmas reader_defs [roq_defs] = ReadByte_def io_ReadFull_def ReadFrom_Limit_def

section \<open>Decimal formatting\<close>

text \<open>The \<open>%v\<close> verb of package fmt at unsigned and signed integers.\<close>

definition digit_char :: "nat \<Rightarrow> char" where
  "digit_char d = char_of (48 + d)"

fun show_nat :: "nat \<Rightarrow> string" where
  "show_nat n = (if n < 10 then [digit_char n] else show_nat (n div 10) @ [digit_char (n mod 10)])"

declare show_nat.simps [simp del]

definition show_int :: "int \<Rightarrow> string" where
  "show_int i = (if i < 0 then CHR ''-'' # show_nat (nat (- i)) else show_nat (nat i))"

definition digit_val :: "char \<Rightarrow> nat" where
  "digit_val c = of_char c - 48"

definition read_nat :: "string \<Rightarrow> nat" where
  "read_nat s = foldl (\<lambda>a c. 10 * a + digit_val c) 0 s"

lemma digit_val_char [simp]: "d < 10 \<Longrightarrow> digit_val (digit_char d) = d"
  by (simp add: digit_val_def digit_char_def)

lemma read_show_nat [simp]: "read_nat (show_nat n) = n"
proof (induction n rule: show_nat.induct)
  case (1 n)
  show ?case
  proof (cases "n < 10")
    case True
    then show ?thesis by (simp add: show_nat.simps [of n] read_nat_def)
  next
    case False
    with "1.IH" have "foldl (\<lambda>a c. 10 * a + digit_val c) 0 (show_nat (n div 10)) = n div 10"
      by (simp add: read_nat_def)
    with False show ?thesis by (simp add: show_nat.simps [of n] read_nat_def)
  qed
qed

lemma show_nat_inject [simp]: "show_nat m = show_nat n \<longleftrightarrow> m = n"
  by (metis read_show_nat)

lemma digit_char_neq_colon: "d < 10 \<Longrightarrow> digit_char d \<noteq> CHR '':''"
  by (auto simp: digit_char_def dest!: arg_cong [where f = "of_char :: char \<Rightarrow> nat"])

lemma colon_notin_show_nat: "CHR '':'' \<notin> set (show_nat n)"
proof (induction n rule: show_nat.induct)
  case (1 n)
  then show ?case
    using digit_char_neq_colon [of n] digit_char_neq_colon [of "n mod 10"]
    by (auto simp: show_nat.simps [of n])
qed

section \<open>Lists and association lists\<close>

lemma append_split_unique:
  assumes "xs @ c # ys = xs' @ c # ys'" and "c \<notin> set xs" and "c \<notin> set xs'"
  shows "xs = xs' \<and> ys = ys'"
  using assms
proof (induction xs arbitrary: xs')
  case Nil
  then show ?case by (cases xs') auto
next
  case (Cons x xs)
  then show ?case by (cases xs') auto
qed

lemma take_take_append: "take n (take n xs @ ys) = take n (xs @ ys)"
  by (cases "length xs \<le> n") simp_all

lemma update_fst_set: "fst ` set (AList.update k v xs) = insert k (fst ` set xs)"
  by (induction xs) auto

lemma delete_fst_set: "fst ` set (AList.delete k xs) = fst ` set xs - {k}"
  by (induction xs) auto

lemma length_filter_update:
  assumes "k < length xs"
  shows "length (filter P (xs[k := x])) + (if P (xs ! k) then 1 else 0)
    = length (filter P xs) + (if P x then 1 else 0)"
  using assms
proof (induction xs arbitrary: k)
  case (Cons y ys)
  then show ?case by (cases k) auto
qed simp

lemma sum_list_update_eq:
  fixes f :: "'a \<Rightarrow> nat"
  assumes "k < length xs"
  shows "sum_list (map f (xs[k := x])) + f (xs ! k) = sum_list (map f xs) + f x"
  using assms
proof (induction xs arbitrary: k)
  case (Cons y ys)
  then show ?case by (cases k) fastforce+
qed simp

lemma sum_list_mono_at:
  fixes f g :: "'a \<Rightarrow> nat"
  assumes "k < length xs" and "\<And>x. f x \<le> g x"
  shows "sum_list (map f xs) + g (xs ! k) \<le> sum_list (map g xs) + f (xs ! k)"
  using assms(1)
proof (induction xs arbitrary: k)
  case (Cons y ys)
  have "sum_list (map f ys) \<le> sum_list (map g ys)"
    using assms(2) by (rule sum_list_mono)
  then show ?case
    using Cons assms(2) [of y] by (cases k) fastforce+
qed simp

end
