(* ===== verification/Varint.thy ===== *)
theory Varint
  imports Roq_Prelude
begin

text \<open>
  QUIC variable-length integers. Package \<open>quicvarint\<close> of quic-go is not part of the repository, so
  the functions the sources call (\<open>Parse\<close>, \<open>Append\<close>, \<open>Len\<close>, \<open>Read\<close>) are a parameter of the model, the
  record \<open>varint_lib\<close>, and what its documentation promises is the locale \<open>quicvarint\<close>. The
  variable-length encoding of RFC 9000, Section 16, which the package implements, is defined here
  and shown to satisfy the locale.
\<close>

section \<open>The interface of package quicvarint\<close>

record varint_lib =
  vi_Parse :: "byte list \<Rightarrow> goerror + (u64 \<times> nat)"
  vi_Append :: "byte list \<Rightarrow> u64 \<Rightarrow> byte list outcome"
  vi_Len :: "u64 \<Rightarrow> nat outcome"
  vi_Read :: "ReceiveStream \<Rightarrow> (goerror + u64) \<times> ReceiveStream"

text \<open>The bytes \<open>Append\<close> adds for a value.\<close>

definition vi_enc :: "varint_lib \<Rightarrow> u64 \<Rightarrow> byte list" where
  "vi_enc V v = (case vi_Append V [] v of Done bs \<Rightarrow> bs | Panic _ \<Rightarrow> [])"

text \<open>A value is encodable when it fits into 62 bits.\<close>

definition fits62 :: "u64 \<Rightarrow> bool" where
  "fits62 v \<longleftrightarrow> unat v < 2 ^ 62"

text \<open>The two top bits of the first byte are the logarithm of the length of the encoding.\<close>

definition varint_size :: "byte \<Rightarrow> nat" where
  "varint_size b = 2 ^ unat (drop_bit 6 b)"

text \<open>Whether a byte sequence starts with a complete varint.\<close>

definition varint_complete :: "byte list \<Rightarrow> bool" where
  "varint_complete bs \<longleftrightarrow> bs \<noteq> [] \<and> varint_size (hd bs) \<le> length bs"

lemma unat_tag_bits: "unat (drop_bit 6 (b :: byte)) = unat b div 64"
  by (subst unat_drop_bit_eq) (simp add: drop_bit_eq_div)

lemma varint_size_cases: "varint_size b \<in> {1, 2, 4, 8}"
proof -
  have "unat (drop_bit 6 b) = unat b div 64"
    by (rule unat_tag_bits)
  moreover have "unat b < 256"
    by (rule order_less_le_trans [OF unsigned_less]) simp
  ultimately have "unat (drop_bit 6 b) \<in> {0, 1, 2, 3}"
    by auto
  then show ?thesis
    by (auto simp: varint_size_def)
qed

lemma varint_size_pos [simp]: "0 < varint_size b"
  by (simp add: varint_size_def)

lemma varint_size_le [simp]: "varint_size b \<le> 8"
  using varint_size_cases [of b] by auto

locale quicvarint =
  fixes V :: varint_lib
  assumes Append_fits: "fits62 v \<Longrightarrow> vi_Append V bs v = Done (bs @ vi_enc V v)"
    and Append_big: "\<not> fits62 v \<Longrightarrow> \<exists>m. vi_Append V bs v = Panic m"
    and Len_fits: "fits62 v \<Longrightarrow> vi_Len V v = Done (length (vi_enc V v))"
    and Len_big: "\<not> fits62 v \<Longrightarrow> \<exists>m. vi_Len V v = Panic m"
    and Parse_enc: "fits62 v \<Longrightarrow> vi_Parse V (vi_enc V v @ rest) = Inr (v, length (vi_enc V v))"
    and Parse_complete:
      "varint_complete bs \<Longrightarrow> \<exists>v. fits62 v \<and> vi_Parse V bs = Inr (v, varint_size (hd bs))"
    and Parse_incomplete: "\<not> varint_complete bs \<Longrightarrow> \<exists>e. vi_Parse V bs = Inl e"
    and Parse_prefix: "vi_Parse V bs = Inr (v, n) \<Longrightarrow> vi_Parse V (take n bs @ rest) = Inr (v, n)"
    and Parse_minimal: "vi_Parse V bs = Inr (v, n) \<Longrightarrow> length (vi_enc V v) \<le> n"
    and Read_ok: "vi_Parse V (rs_data r) = Inr (v, n) \<Longrightarrow>
      vi_Read V r = (Inr v, r\<lparr>rs_data := drop n (rs_data r)\<rparr>)"
    and Read_fail: "vi_Parse V (rs_data r) = Inl e \<Longrightarrow> \<exists>e' r'. vi_Read V r = (Inl e', r')"
begin

lemma Parse_Inr_iff:
  "vi_Parse V bs = Inr (v, n) \<Longrightarrow> varint_complete bs \<and> n = varint_size (hd bs) \<and> fits62 v"
  using Parse_complete [of bs] Parse_incomplete [of bs] by (cases "varint_complete bs") auto

lemma Parse_Inr_bounds:
  assumes "vi_Parse V bs = Inr (v, n)"
  shows "0 < n" and "n \<le> length bs" and "n \<le> 8" and "fits62 v"
  using Parse_Inr_iff [OF assms] by (auto simp: varint_complete_def)

lemma enc_complete: "fits62 v \<Longrightarrow> varint_complete (vi_enc V v @ rest)"
  using Parse_enc [of v rest] Parse_Inr_iff by blast

lemma enc_size:
  assumes "fits62 v"
  shows "vi_enc V v \<noteq> []" and "varint_size (hd (vi_enc V v)) = length (vi_enc V v)"
proof -
  have "vi_Parse V (vi_enc V v @ []) = Inr (v, length (vi_enc V v))"
    using assms by (rule Parse_enc)
  then show "vi_enc V v \<noteq> []" and "varint_size (hd (vi_enc V v)) = length (vi_enc V v)"
    by (auto dest!: Parse_Inr_iff simp: varint_complete_def)
qed

lemma enc_inject: "fits62 v \<Longrightarrow> fits62 w \<Longrightarrow> vi_enc V v @ xs = vi_enc V w @ ys \<Longrightarrow> v = w \<and> xs = ys"
  using Parse_enc [of v xs] Parse_enc [of w ys] by auto

lemma Read_enc:
  "fits62 v \<Longrightarrow> rs_data r = vi_enc V v @ rest \<Longrightarrow> vi_Read V r = (Inr v, r\<lparr>rs_data := rest\<rparr>)"
  using Read_ok [of r v "length (vi_enc V v)"] Parse_enc [of v rest] by simp

end

section \<open>The encoding of RFC 9000, Section 16\<close>

text \<open>Big-endian byte sequences.\<close>

fun be_bytes :: "nat \<Rightarrow> nat \<Rightarrow> byte list" where
  "be_bytes 0 v = []"
| "be_bytes (Suc k) v = be_bytes k (v div 256) @ [word_of_nat v]"

definition be_val :: "byte list \<Rightarrow> nat" where
  "be_val bs = foldl (\<lambda>a b. a * 256 + unat b) 0 bs"

lemma length_be_bytes [simp]: "length (be_bytes k v) = k"
  by (induction k arbitrary: v) auto

lemma be_val_be_bytes: "be_val (be_bytes k v) = v mod 256 ^ k"
proof (induction k arbitrary: v)
  case 0
  then show ?case by (simp add: be_val_def)
next
  case (Suc k)
  have "be_val (be_bytes (Suc k) v) = be_val (be_bytes k (v div 256)) * 256 + v mod 256"
    by (simp add: be_val_def unat_of_nat)
  also have "\<dots> = (v div 256) mod 256 ^ k * 256 + v mod 256"
    by (simp add: Suc)
  also have "\<dots> = v mod 256 ^ Suc k"
    by (simp add: mod_mult2_eq)
  finally show ?case .
qed

lemma hd_be_bytes: "hd (be_bytes (Suc k) v) = word_of_nat (v div 256 ^ k)"
proof (induction k arbitrary: v)
  case 0
  then show ?case by simp
next
  case (Suc k)
  have "hd (be_bytes (Suc (Suc k)) v) = hd (be_bytes (Suc k) (v div 256))"
    by (simp del: be_bytes.simps add: be_bytes.simps(2) [of "Suc k"])
       (metis hd_append2 length_be_bytes list.size(3) nat.simps(3))
  then show ?case
    by (simp add: Suc div_mult2_eq del: be_bytes.simps)
qed

lemma mod_div_256_64: "(x :: nat) mod 256 div 64 = x div 64 mod 4"
  using mod_mult2_eq [of x 64 4] by simp

definition rfc_exp :: "nat \<Rightarrow> nat" where
  "rfc_exp v = (if v < 2 ^ 6 then 0 else if v < 2 ^ 14 then 1 else if v < 2 ^ 30 then 2 else 3)"

definition rfc_enc :: "nat \<Rightarrow> byte list" where
  "rfc_enc v = (let k = rfc_exp v; n = 2 ^ k in be_bytes n (k * 2 ^ (8 * n - 2) + v))"

definition rfc_Parse :: "byte list \<Rightarrow> goerror + (u64 \<times> nat)" where
  "rfc_Parse bs =
     (case bs of
        [] \<Rightarrow> Inl io_EOF
      | b # _ \<Rightarrow>
          (let n = varint_size b in
           if length bs < n then Inl io_ErrUnexpectedEOF
           else Inr (word_of_nat (be_val (take n bs) mod 2 ^ (8 * n - 2)), n)))"

definition rfc_Append :: "byte list \<Rightarrow> u64 \<Rightarrow> byte list outcome" where
  "rfc_Append bs v =
     (if fits62 v then Done (bs @ rfc_enc (unat v)) else Panic ''value doesn't fit into 62 bits'')"

definition rfc_Len :: "u64 \<Rightarrow> nat outcome" where
  "rfc_Len v =
     (if fits62 v then Done (2 ^ rfc_exp (unat v)) else Panic ''value doesn't fit into 62 bits'')"

definition rfc_Read :: "ReceiveStream \<Rightarrow> (goerror + u64) \<times> ReceiveStream" where
  "rfc_Read r =
     (case ReadByte r of
        (Inl e, r1) \<Rightarrow> (Inl e, r1)
      | (Inr b, r1) \<Rightarrow>
          (case io_ReadFull r1 (varint_size b - 1) of
             (Inl e, r2) \<Rightarrow> (Inl e, r2)
           | (Inr bs, r2) \<Rightarrow>
               (case rfc_Parse (b # bs) of
                  Inl e \<Rightarrow> (Inl e, r2)
                | Inr (v, n) \<Rightarrow> (Inr v, r2))))"

definition rfc9000 :: varint_lib where
  "rfc9000 = \<lparr>vi_Parse = rfc_Parse, vi_Append = rfc_Append, vi_Len = rfc_Len, vi_Read = rfc_Read\<rparr>"

lemma rfc9000_sel [simp]:
  "vi_Parse rfc9000 = rfc_Parse" "vi_Append rfc9000 = rfc_Append"
  "vi_Len rfc9000 = rfc_Len" "vi_Read rfc9000 = rfc_Read"
  by (simp_all add: rfc9000_def)

lemma vi_enc_rfc9000 [simp]: "fits62 v \<Longrightarrow> vi_enc rfc9000 v = rfc_enc (unat v)"
  by (simp add: vi_enc_def rfc_Append_def)

lemma length_rfc_enc [simp]: "length (rfc_enc v) = 2 ^ rfc_exp v"
  by (simp add: rfc_enc_def Let_def)

text \<open>The value fits under the two tag bits, which therefore carry the length.\<close>

lemma rfc_exp_bound:
  assumes "v < 2 ^ 62"
  shows "rfc_exp v \<le> 3" and "v < 2 ^ (8 * 2 ^ rfc_exp v - 2)"
  using assms by (auto simp: rfc_exp_def)

lemma varint_size_hd_rfc_enc:
  assumes "v < 2 ^ 62"
  shows "varint_size (hd (rfc_enc v)) = 2 ^ rfc_exp v"
proof -
  define k where "k = rfc_exp v"
  define n :: nat where "n = 2 ^ k"
  note kb = rfc_exp_bound [OF assms, folded k_def, folded n_def]
  obtain m where m: "n = Suc m"
    by (metis Suc_pred n_def zero_less_numeral zero_less_power)
  have split: "8 * n - 2 = 8 * m + 6" and pow: "(256::nat) ^ m = 2 ^ (8 * m)"
    by (simp_all add: m power_mult)
  have tag: "(k * 2 ^ (8 * n - 2) + v) div 256 ^ m div 64 = k"
    using kb(2) unfolding split pow
    by (simp add: div_mult2_eq [symmetric] power_add)
  have "hd (rfc_enc v) = word_of_nat ((k * 2 ^ (8 * n - 2) + v) div 256 ^ m)"
    unfolding rfc_enc_def Let_def k_def [symmetric] n_def [symmetric] unfolding m
    by (rule hd_be_bytes)
  then have "unat (drop_bit 6 (hd (rfc_enc v)))
      = (k * 2 ^ (8 * n - 2) + v) div 256 ^ m mod 256 div 64"
    by (simp add: unat_tag_bits unat_of_nat)
  also have "\<dots> = k mod 4"
    using tag by (simp add: mod_div_256_64)
  also have "\<dots> = k"
    using kb(1) by simp
  finally show ?thesis
    by (simp add: varint_size_def k_def)
qed

lemma rfc_Parse_enc:
  assumes "v < 2 ^ 62"
  shows "rfc_Parse (rfc_enc v @ rest) = Inr (word_of_nat v, 2 ^ rfc_exp v)"
proof -
  define k where "k = rfc_exp v"
  define n :: nat where "n = 2 ^ k"
  note kb = rfc_exp_bound [OF assms, folded k_def, folded n_def]
  have len: "length (rfc_enc v) = n"
    by (simp add: n_def k_def)
  have n1: "1 \<le> n"
    by (simp add: n_def)
  have pow: "(256::nat) ^ n = 4 * 2 ^ (8 * n - 2)"
  proof -
    obtain m where m: "n = Suc m"
      using n1 by (cases n) auto
    have "8 * n - 2 = 8 * m + 6"
      by (simp add: m)
    then show ?thesis
      by (simp add: m power_add power_mult)
  qed
  have "be_val (rfc_enc v) = (k * 2 ^ (8 * n - 2) + v) mod 256 ^ n"
    by (simp add: rfc_enc_def Let_def be_val_be_bytes k_def n_def)
  then have val: "be_val (rfc_enc v) mod 2 ^ (8 * n - 2) = v"
    using kb(2) by (simp add: pow mod_mod_cancel)
  obtain b bs where enc: "rfc_enc v = b # bs"
    using len n1 by (cases "rfc_enc v") auto
  with varint_size_hd_rfc_enc [OF assms] have size: "varint_size b = n"
    by (simp add: n_def k_def)
  have "take n (rfc_enc v @ rest) = rfc_enc v"
    by (simp add: len [symmetric] del: length_rfc_enc)
  with size val len show ?thesis
    by (simp add: rfc_Parse_def enc flip: n_def k_def)
qed

lemma fits62_word_of_nat: "v < 2 ^ 62 \<Longrightarrow> fits62 (word_of_nat v)"
  by (simp add: fits62_def unat_of_nat take_bit_eq_mod)

lemma rfc_Parse_complete:
  assumes "varint_complete bs"
  shows "rfc_Parse bs =
    Inr (word_of_nat (be_val (take (varint_size (hd bs)) bs) mod 2 ^ (8 * varint_size (hd bs) - 2)),
         varint_size (hd bs))"
  using assms by (cases bs) (auto simp: varint_complete_def rfc_Parse_def Let_def)

lemma rfc_value_fits:
  "fits62 (word_of_nat (x mod 2 ^ (8 * varint_size b - 2)))"
proof (rule fits62_word_of_nat)
  have "x mod 2 ^ (8 * varint_size b - 2) < 2 ^ (8 * varint_size b - 2)"
    by simp
  also have "\<dots> \<le> (2::nat) ^ 62"
    using varint_size_cases [of b] by (intro power_increasing) auto
  finally show "x mod 2 ^ (8 * varint_size b - 2) < 2 ^ 62" .
qed

lemma rfc_Parse_Inr:
  assumes "rfc_Parse bs = Inr (v, n)"
  shows "varint_complete bs" and "n = varint_size (hd bs)"
  using assms by (auto simp: rfc_Parse_def varint_complete_def Let_def split: list.splits if_splits)

lemma rfc_Parse_prefix:
  assumes "rfc_Parse bs = Inr (v, n)"
  shows "rfc_Parse (take n bs @ rest) = Inr (v, n)"
proof -
  note c = rfc_Parse_Inr [OF assms]
  obtain b xs where bs: "bs = b # xs"
    using c(1) by (cases bs) (auto simp: varint_complete_def)
  obtain m where m: "n = Suc m"
    using c(2) varint_size_pos [of b] by (metis bs gr0_conv_Suc list.sel(1))
  have whole: "varint_complete (take n bs @ rest)" and hd: "hd (take n bs @ rest) = hd bs"
    using c by (auto simp: varint_complete_def bs m)
  have "take (varint_size (hd bs)) (take n bs @ rest) = take (varint_size (hd bs)) bs"
    using c by (simp add: varint_complete_def)
  with assms show ?thesis
    using rfc_Parse_complete [OF c(1)] rfc_Parse_complete [OF whole] by (simp only: hd)
qed

text \<open>No encoding of a value is shorter than the one \<open>Append\<close> writes.\<close>

lemma rfc_exp_minimal:
  assumes "n \<in> {1, 2, 4, 8}" and "x < 2 ^ (8 * n - 2)"
  shows "2 ^ rfc_exp x \<le> n"
  using assms by (auto simp: rfc_exp_def)

lemma rfc_Parse_minimal:
  assumes "rfc_Parse bs = Inr (v, n)"
  shows "length (vi_enc rfc9000 v) \<le> n"
proof -
  note c = rfc_Parse_Inr [OF assms]
  define x where "x = be_val (take n bs) mod 2 ^ (8 * n - 2)"
  have v: "v = word_of_nat x"
    using rfc_Parse_complete [OF c(1)] assms by (simp add: x_def c(2))
  have n: "n \<in> {1, 2, 4, 8}"
    using c(2) varint_size_cases by simp
  have "x < 2 ^ (8 * n - 2)"
    by (simp add: x_def)
  moreover have "(2::nat) ^ (8 * n - 2) \<le> 2 ^ 62"
    using n by (intro power_increasing) auto
  ultimately have x62: "x < 2 ^ 62" by simp
  then have "unat v = x"
    by (simp add: v unat_of_nat)
  then show ?thesis
    using rfc_exp_minimal [OF n \<open>x < 2 ^ (8 * n - 2)\<close>] fits62_word_of_nat [OF x62] v by simp
qed

lemma rfc_Read_ok:
  assumes "rfc_Parse (rs_data r) = Inr (v, n)"
  shows "rfc_Read r = (Inr v, r\<lparr>rs_data := drop n (rs_data r)\<rparr>)"
proof -
  note c = rfc_Parse_Inr [OF assms]
  obtain b xs where d: "rs_data r = b # xs"
    using c(1) by (cases "rs_data r") (auto simp: varint_complete_def)
  obtain m where m: "varint_size b = Suc m"
    using varint_size_pos [of b] by (cases "varint_size b") auto
  have n: "n = Suc m" and len: "m \<le> length xs"
    using c by (simp_all add: d m varint_complete_def)
  have "rfc_Parse (b # take m xs) = Inr (v, n)"
    using rfc_Parse_prefix [OF assms, of "[]"] by (simp add: d n)
  then show ?thesis
    using len by (simp add: rfc_Read_def reader_defs d m n)
qed

lemma rfc_Read_fail:
  assumes "rfc_Parse (rs_data r) = Inl e"
  shows "\<exists>e' r'. rfc_Read r = (Inl e', r')"
proof (cases "rs_data r")
  case Nil
  then show ?thesis by (simp add: rfc_Read_def ReadByte_def)
next
  case (Cons b xs)
  with assms have "length xs < varint_size b - 1"
    by (auto simp: rfc_Parse_def Let_def split: if_splits)
  then show ?thesis
    using Cons by (simp add: rfc_Read_def reader_defs)
qed

interpretation rfc: quicvarint rfc9000
proof unfold_locales
  fix v bs assume "\<not> fits62 v"
  then show "\<exists>m. vi_Append rfc9000 bs v = Panic m" and "\<exists>m. vi_Len rfc9000 v = Panic m"
    by (simp_all add: rfc_Append_def rfc_Len_def)
next
  fix v rest assume "fits62 v"
  then show "vi_Parse rfc9000 (vi_enc rfc9000 v @ rest) = Inr (v, length (vi_enc rfc9000 v))"
    using rfc_Parse_enc [of "unat v" rest] by (simp add: fits62_def)
next
  fix bs assume "varint_complete bs"
  then show "\<exists>v. fits62 v \<and> vi_Parse rfc9000 bs = Inr (v, varint_size (hd bs))"
    by (simp add: rfc_Parse_complete rfc_value_fits)
next
  fix bs assume "\<not> varint_complete bs"
  then show "\<exists>e. vi_Parse rfc9000 bs = Inl e"
    by (auto simp: rfc_Parse_def varint_complete_def Let_def split: list.splits)
qed (auto simp: rfc_Append_def rfc_Len_def rfc_Parse_prefix rfc_Parse_minimal rfc_Read_ok
    rfc_Read_fail)

section \<open>Small values\<close>

text \<open>Values below 64 take one byte; concrete inputs are evaluated with these.\<close>

lemma fits62_small: "unat v < 64 \<Longrightarrow> fits62 v"
  unfolding fits62_def by simp

lemma rfc_enc_small: "v < 64 \<Longrightarrow> rfc_enc v = [word_of_nat v]"
  by (simp add: rfc_enc_def rfc_exp_def Let_def)

lemma vi_enc_small: "unat v < 64 \<Longrightarrow> vi_enc rfc9000 v = [word_of_nat (unat v)]"
  by (simp add: fits62_small rfc_enc_small)

lemma rfc_Append_small: "unat v < 64 \<Longrightarrow> rfc_Append bs v = Done (bs @ [word_of_nat (unat v)])"
  by (simp add: rfc_Append_def fits62_small rfc_enc_small)

lemma rfc_Len_small: "unat v < 64 \<Longrightarrow> rfc_Len v = Done 1"
  by (simp add: rfc_Len_def fits62_small rfc_exp_def)

lemmas rfc_small = vi_enc_small rfc_Append_small rfc_Len_small

end
