(* ===== verification/Qlog_Event.thy ===== *)
theory Qlog_Event
  imports Roq_Prelude
begin

text \<open>
  The qlog events of \<open>qlog/event.go\<close>: the event structs, the encoder helper that remembers the first
  error, and the encoding of every event as a sequence of JSON tokens. The JSON encoder itself
  (\<open>jsontext.Encoder\<close> of quic-go) is a parameter, a function that writes one token to an encoder
  state and may fail. The encodings are shown to write exactly the tokens of a JSON document, from
  which the event can be read back.
\<close>

section \<open>Tokens and documents\<close>

datatype token = BeginObject | EndObject | TokString string | TokUint u64

text \<open>\<open>Encoder.WriteToken\<close>, over the state of an encoder.\<close>

type_synonym 'e token_writer = "'e \<Rightarrow> token \<Rightarrow> goerror option \<times> 'e"

text \<open>The JSON documents the events use, and the tokens of a document.\<close>

datatype json = JString string | JUint u64 | JObject "(string \<times> json) list"

fun json_tokens :: "json \<Rightarrow> token list"
  and member_tokens :: "(string \<times> json) list \<Rightarrow> token list" where
  "json_tokens (JString s) = [TokString s]"
| "json_tokens (JUint n) = [TokUint n]"
| "json_tokens (JObject ms) = BeginObject # member_tokens ms @ [EndObject]"
| "member_tokens [] = []"
| "member_tokens ((k, v) # ms) = TokString k # json_tokens v @ member_tokens ms"

text \<open>A document can be read back from its tokens: no two documents share a token sequence.\<close>

lemma json_tokens_unique:
  "json_tokens j @ xs = json_tokens j' @ ys \<Longrightarrow> j = j' \<and> xs = ys"
  "member_tokens ms @ EndObject # xs = member_tokens ms' @ EndObject # ys \<Longrightarrow> ms = ms' \<and> xs = ys"
proof (induction j and ms arbitrary: j' xs ys and ms' xs ys
    rule: json_tokens_member_tokens.induct)
  case (1 s)
  then show ?case by (cases j') auto
next
  case (2 n)
  then show ?case by (cases j') auto
next
  case (3 ms)
  then show ?case by (cases j') auto
next
  case 4
  then show ?case by (cases ms') auto
next
  case (5 k v ms)
  show ?case
  proof (cases ms')
    case Nil
    with "5.prems" show ?thesis by simp
  next
    case (Cons m ms'')
    obtain k' v' where m: "m = (k', v')"
      by (cases m)
    from "5.prems" have "k = k'"
      and eq: "json_tokens v @ (member_tokens ms @ EndObject # xs)
             = json_tokens v' @ (member_tokens ms'' @ EndObject # ys)"
      by (simp_all add: Cons m)
    with "5.IH"(1) [OF eq] "5.IH"(2) [of xs ms'' ys] show ?thesis
      by (simp add: Cons m)
  qed
qed

section \<open>The encoder helper\<close>

record 'e encoderHelper =
  h_enc :: 'e
  h_err :: "goerror option"

definition new_encoderHelper :: "'e \<Rightarrow> 'e encoderHelper" where
  "new_encoderHelper e = \<lparr>h_enc = e, h_err = None\<rparr>"

definition WriteToken :: "'e token_writer \<Rightarrow> 'e encoderHelper \<Rightarrow> token \<Rightarrow> 'e encoderHelper" where
  "WriteToken w h t =
     (if h_err h \<noteq> None then h
      else (case w (h_enc h) t of (r, e') \<Rightarrow> h\<lparr>h_enc := e', h_err := r\<rparr>))"

section \<open>Raw information, packets, events\<close>

record RawInfo =
  ri_Length :: u64
  ri_PayloadLength :: u64
  ri_Data :: "byte list"

record Packet =
  p_FlowID :: u64
  p_Length :: u64
  p_Raw :: RawInfo

datatype event =
    StreamOpened u64 u64
  | StreamPacketCreated u64 Packet
  | StreamPacketParsed u64 Packet
  | DatagramPacketCreated Packet
  | DatagramPacketParsed Packet

fun Name :: "event \<Rightarrow> string" where
  "Name (StreamOpened _ _) = ''roq:stream_opened''"
| "Name (StreamPacketCreated _ _) = ''roq:stream_packet_created''"
| "Name (StreamPacketParsed _ _) = ''roq:stream_packet_parsed''"
| "Name (DatagramPacketCreated _) = ''roq:datagram_packet_created''"
| "Name (DatagramPacketParsed _) = ''roq:datagram_packet_parsed''"

definition HasValues :: "RawInfo \<Rightarrow> bool" where
  "HasValues i \<longleftrightarrow> ri_Length i \<noteq> 0 \<or> ri_PayloadLength i \<noteq> 0 \<or> 0 < length (ri_Data i)"

text \<open>\<open>hex.EncodeToString\<close>.\<close>

definition hex_digit :: "nat \<Rightarrow> char" where
  "hex_digit d = (if d < 10 then char_of (48 + d) else char_of (87 + d))"

fun hex_EncodeToString :: "byte list \<Rightarrow> string" where
  "hex_EncodeToString [] = []"
| "hex_EncodeToString (b # bs) =
     hex_digit (unat b div 16) # hex_digit (unat b mod 16) # hex_EncodeToString bs"

text \<open>\<open>RawInfo.encode\<close>, \<open>Packet.encode\<close> and the two shared event encoders, token by token.\<close>

definition RawInfo_encode :: "'e token_writer \<Rightarrow> RawInfo \<Rightarrow> 'e \<Rightarrow> goerror option \<times> 'e" where
  "RawInfo_encode w i e =
     (let h = new_encoderHelper e;
          h = WriteToken w h BeginObject;
          h = (if ri_Length i \<noteq> 0
               then WriteToken w (WriteToken w h (TokString ''length'')) (TokUint (ri_Length i))
               else h);
          h = (if ri_PayloadLength i \<noteq> 0
               then WriteToken w (WriteToken w h (TokString ''payload_length''))
                      (TokUint (ri_PayloadLength i))
               else h);
          h = (if 0 < length (ri_Data i)
               then WriteToken w (WriteToken w h (TokString ''data''))
                      (TokString (hex_EncodeToString (ri_Data i)))
               else h);
          h = WriteToken w h EndObject
      in (h_err h, h_enc h))"

definition Packet_encode :: "'e token_writer \<Rightarrow> Packet \<Rightarrow> 'e \<Rightarrow> goerror option \<times> 'e" where
  "Packet_encode w p e =
     (let h = new_encoderHelper e;
          h = WriteToken w h BeginObject;
          h = WriteToken w h (TokString ''flow_id'');
          h = WriteToken w h (TokUint (p_FlowID p));
          h = WriteToken w h (TokString ''length'');
          h = WriteToken w h (TokUint (p_Length p));
          h = (if HasValues (p_Raw p)
               then (let h = WriteToken w h (TokString ''raw'') in
                     if h_err h = None
                     then (case RawInfo_encode w (p_Raw p) (h_enc h) of
                             (r, e') \<Rightarrow> h\<lparr>h_enc := e', h_err := r\<rparr>)
                     else h)
               else h);
          h = WriteToken w h EndObject
      in (h_err h, h_enc h))"

definition StreamOpened_Encode :: "'e token_writer \<Rightarrow> u64 \<Rightarrow> u64 \<Rightarrow> 'e \<Rightarrow> goerror option \<times> 'e" where
  "StreamOpened_Encode w flowID streamID e =
     (let h = new_encoderHelper e;
          h = WriteToken w h BeginObject;
          h = WriteToken w h (TokString ''flow_id'');
          h = WriteToken w h (TokUint flowID);
          h = WriteToken w h (TokString ''stream_id'');
          h = WriteToken w h (TokUint streamID);
          h = WriteToken w h EndObject
      in (h_err h, h_enc h))"

definition encodeStreamPacket :: "'e token_writer \<Rightarrow> u64 \<Rightarrow> Packet \<Rightarrow> 'e \<Rightarrow> goerror option \<times> 'e" where
  "encodeStreamPacket w streamID packet e =
     (let h = new_encoderHelper e;
          h = WriteToken w h BeginObject;
          h = WriteToken w h (TokString ''stream_id'');
          h = WriteToken w h (TokUint streamID);
          h = WriteToken w h (TokString ''packet'');
          h = (if h_err h = None
               then (case Packet_encode w packet (h_enc h) of (r, e') \<Rightarrow> h\<lparr>h_enc := e', h_err := r\<rparr>)
               else h);
          h = WriteToken w h EndObject
      in (h_err h, h_enc h))"

definition encodeDatagramPacket :: "'e token_writer \<Rightarrow> Packet \<Rightarrow> 'e \<Rightarrow> goerror option \<times> 'e" where
  "encodeDatagramPacket w packet e =
     (let h = new_encoderHelper e;
          h = WriteToken w h BeginObject;
          h = WriteToken w h (TokString ''packet'');
          h = (if h_err h = None
               then (case Packet_encode w packet (h_enc h) of (r, e') \<Rightarrow> h\<lparr>h_enc := e', h_err := r\<rparr>)
               else h);
          h = WriteToken w h EndObject
      in (h_err h, h_enc h))"

fun Encode :: "'e token_writer \<Rightarrow> event \<Rightarrow> 'e \<Rightarrow> goerror option \<times> 'e" where
  "Encode w (StreamOpened f s) e = StreamOpened_Encode w f s e"
| "Encode w (StreamPacketCreated s p) e = encodeStreamPacket w s p e"
| "Encode w (StreamPacketParsed s p) e = encodeStreamPacket w s p e"
| "Encode w (DatagramPacketCreated p) e = encodeDatagramPacket w p e"
| "Encode w (DatagramPacketParsed p) e = encodeDatagramPacket w p e"

section \<open>What the encodings write\<close>

text \<open>The reference: write a token sequence, stopping at the first error.\<close>

fun write_all :: "'e token_writer \<Rightarrow> token list \<Rightarrow> 'e \<Rightarrow> goerror option \<times> 'e" where
  "write_all w [] e = (None, e)"
| "write_all w (t # ts) e =
     (case w e t of (None, e') \<Rightarrow> write_all w ts e' | (Some r, e') \<Rightarrow> (Some r, e'))"

lemma write_all_append:
  "write_all w (xs @ ys) e =
     (case write_all w xs e of (None, e') \<Rightarrow> write_all w ys e' | (Some r, e') \<Rightarrow> (Some r, e'))"
  by (induction xs arbitrary: e) (auto split: prod.splits option.splits)

text \<open>A helper that has been fed a token sequence.\<close>

definition fed :: "'e token_writer \<Rightarrow> 'e \<Rightarrow> token list \<Rightarrow> 'e encoderHelper" where
  "fed w e ts = \<lparr>h_enc = snd (write_all w ts e), h_err = fst (write_all w ts e)\<rparr>"

lemma new_fed: "new_encoderHelper e = fed w e []"
  by (simp add: new_encoderHelper_def fed_def)

lemma WriteToken_fed: "WriteToken w (fed w e ts) t = fed w e (ts @ [t])"
  by (auto simp: WriteToken_def fed_def write_all_append split: prod.splits option.splits)

lemma fed_nested:
  assumes "\<And>e. f e = write_all w us e"
  shows "(if h_err (fed w e ts) = None
          then (case f (h_enc (fed w e ts)) of (r, e') \<Rightarrow> (fed w e ts)\<lparr>h_enc := e', h_err := r\<rparr>)
          else fed w e ts) = fed w e (ts @ us)"
  by (auto simp: fed_def assms write_all_append split: prod.splits option.splits)

lemma fed_result: "(h_err (fed w e ts), h_enc (fed w e ts)) = write_all w ts e"
  by (simp add: fed_def)

text \<open>The JSON documents of the event schema.\<close>

definition raw_members :: "RawInfo \<Rightarrow> (string \<times> json) list" where
  "raw_members i =
     (if ri_Length i \<noteq> 0 then [(''length'', JUint (ri_Length i))] else []) @
     (if ri_PayloadLength i \<noteq> 0 then [(''payload_length'', JUint (ri_PayloadLength i))] else []) @
     (if 0 < length (ri_Data i) then [(''data'', JString (hex_EncodeToString (ri_Data i)))] else [])"

definition packet_json :: "Packet \<Rightarrow> json" where
  "packet_json p = JObject
     ([(''flow_id'', JUint (p_FlowID p)), (''length'', JUint (p_Length p))] @
      (if HasValues (p_Raw p) then [(''raw'', JObject (raw_members (p_Raw p)))] else []))"

fun event_json :: "event \<Rightarrow> json" where
  "event_json (StreamOpened f s) = JObject [(''flow_id'', JUint f), (''stream_id'', JUint s)]"
| "event_json (StreamPacketCreated s p) = JObject [(''stream_id'', JUint s), (''packet'', packet_json p)]"
| "event_json (StreamPacketParsed s p) = JObject [(''stream_id'', JUint s), (''packet'', packet_json p)]"
| "event_json (DatagramPacketCreated p) = JObject [(''packet'', packet_json p)]"
| "event_json (DatagramPacketParsed p) = JObject [(''packet'', packet_json p)]"

lemma member_tokens_append [simp]: "member_tokens (xs @ ys) = member_tokens xs @ member_tokens ys"
  by (induction xs) auto

lemma RawInfo_encode_eq: "RawInfo_encode w i e = write_all w (json_tokens (JObject (raw_members i))) e"
  unfolding RawInfo_encode_def raw_members_def new_fed [of e w] Let_def WriteToken_fed
  by (simp add: WriteToken_fed fed_result del: write_all.simps)

lemma Packet_encode_eq: "Packet_encode w p e = write_all w (json_tokens (packet_json p)) e"
  unfolding Packet_encode_def packet_json_def new_fed [of e w] Let_def WriteToken_fed
    fed_nested [OF RawInfo_encode_eq]
  by (simp add: WriteToken_fed fed_result del: write_all.simps)

lemma encodeStreamPacket_eq:
  "encodeStreamPacket w s p e
     = write_all w (json_tokens (JObject [(''stream_id'', JUint s), (''packet'', packet_json p)])) e"
  unfolding encodeStreamPacket_def new_fed [of e w] Let_def WriteToken_fed
    fed_nested [OF Packet_encode_eq] fed_result
  by (simp del: write_all.simps)

lemma encodeDatagramPacket_eq:
  "encodeDatagramPacket w p e = write_all w (json_tokens (JObject [(''packet'', packet_json p)])) e"
  unfolding encodeDatagramPacket_def new_fed [of e w] Let_def WriteToken_fed
    fed_nested [OF Packet_encode_eq] fed_result
  by (simp del: write_all.simps)

lemma StreamOpened_Encode_eq:
  "StreamOpened_Encode w f s e
     = write_all w (json_tokens (JObject [(''flow_id'', JUint f), (''stream_id'', JUint s)])) e"
  unfolding StreamOpened_Encode_def new_fed [of e w] Let_def WriteToken_fed fed_result
  by (simp del: write_all.simps)

lemma Encode_eq: "Encode w ev e = write_all w (json_tokens (event_json ev)) e"
  by (cases ev)
    (simp_all only: Encode.simps event_json.simps StreamOpened_Encode_eq encodeStreamPacket_eq
      encodeDatagramPacket_eq)

section \<open>Reading an event back\<close>

definition hex_val :: "char \<Rightarrow> nat" where
  "hex_val c = (let n = of_char c in if n < 58 then n - 48 else n - 87)"

fun hex_DecodeString :: "string \<Rightarrow> byte list" where
  "hex_DecodeString (a # b # s) = word_of_nat (16 * hex_val a + hex_val b) # hex_DecodeString s"
| "hex_DecodeString _ = []"

lemma hex_val_digit: "d < 16 \<Longrightarrow> hex_val (hex_digit d) = d"
  by (simp add: hex_val_def hex_digit_def)

lemma hex_Decode_Encode [simp]: "hex_DecodeString (hex_EncodeToString bs) = bs"
proof (induction bs)
  case Nil
  then show ?case by simp
next
  case (Cons b bs)
  have "unat b < 256"
    by (rule order_less_le_trans [OF unsigned_less]) simp
  then have "unat b div 16 < 16" by simp
  with Cons show ?case by (simp add: hex_val_digit)
qed

fun uint_of :: "json option \<Rightarrow> u64" where
  "uint_of (Some (JUint n)) = n"
| "uint_of _ = 0"

fun data_of :: "json option \<Rightarrow> byte list" where
  "data_of (Some (JString s)) = hex_DecodeString s"
| "data_of _ = []"

fun members_of :: "json option \<Rightarrow> (string \<rightharpoonup> json)" where
  "members_of (Some (JObject ms)) = map_of ms"
| "members_of _ = Map.empty"

definition packet_of :: "json option \<Rightarrow> Packet" where
  "packet_of j =
     (let m = members_of j; r = members_of (m ''raw'') in
      \<lparr>p_FlowID = uint_of (m ''flow_id''), p_Length = uint_of (m ''length''),
       p_Raw = \<lparr>ri_Length = uint_of (r ''length''), ri_PayloadLength = uint_of (r ''payload_length''),
                ri_Data = data_of (r ''data'')\<rparr>\<rparr>)"

text \<open>A reader of the trace: the event of a name and a document.\<close>

definition decode_event :: "string \<Rightarrow> json \<Rightarrow> event option" where
  "decode_event n j =
     (let m = members_of (Some j); s = uint_of (m ''stream_id''); p = packet_of (m ''packet'') in
      if n = ''roq:stream_opened'' then Some (StreamOpened (uint_of (m ''flow_id'')) s)
      else if n = ''roq:stream_packet_created'' then Some (StreamPacketCreated s p)
      else if n = ''roq:stream_packet_parsed'' then Some (StreamPacketParsed s p)
      else if n = ''roq:datagram_packet_created'' then Some (DatagramPacketCreated p)
      else if n = ''roq:datagram_packet_parsed'' then Some (DatagramPacketParsed p)
      else None)"

lemma packet_of_json [simp]: "packet_of (Some (packet_json p)) = p"
proof -
  obtain f l a b d where "p = \<lparr>p_FlowID = f, p_Length = l,
      p_Raw = \<lparr>ri_Length = a, ri_PayloadLength = b, ri_Data = d\<rparr>\<rparr>"
    by (metis (full_types) Packet.cases RawInfo.cases)
  then show ?thesis
    by (cases "a = 0"; cases "b = 0"; cases "d = []")
      (simp_all add: packet_of_def packet_json_def HasValues_def raw_members_def Let_def)
qed

lemma decode_event_json: "decode_event (Name ev) (event_json ev) = Some ev"
  by (cases ev) (simp_all add: decode_event_def Let_def)

section \<open>Properties\<close>

text \<open>C29: encoding an event writes exactly the tokens of its JSON document, in order, stops at the
  first error of the encoder and returns that error, for every encoder and every event.\<close>

theorem event_encoding: "Encode w ev e = write_all w (json_tokens (event_json ev)) e"
  by (rule Encode_eq)

text \<open>An encoder that never fails and keeps the tokens.\<close>

definition token_log :: "token list token_writer" where
  "token_log ts t = (None, ts @ [t])"

lemma write_all_token_log: "write_all token_log ts us = (None, us @ ts)"
  by (induction ts arbitrary: us) (simp_all add: token_log_def)

text \<open>C30: a trace determines its events: events with the same name whose encodings write the same
  tokens are the same event, data bytes and omitted zero fields included.\<close>

theorem event_encoding_unique:
  "Name ev = Name ev' \<and> Encode token_log ev [] = Encode token_log ev' [] \<longleftrightarrow> ev = ev'"
proof
  assume eq: "Name ev = Name ev' \<and> Encode token_log ev [] = Encode token_log ev' []"
  then have "json_tokens (event_json ev) @ [] = json_tokens (event_json ev') @ []"
    by (simp add: Encode_eq write_all_token_log)
  then have "event_json ev = event_json ev'"
    using json_tokens_unique(1) by blast
  then have "decode_event (Name ev) (event_json ev) = decode_event (Name ev') (event_json ev')"
    using eq by simp
  then show "ev = ev'"
    by (simp add: decode_event_json)
qed simp

end
