(* ===== verification/Errors.thy ===== *)
theory Errors
  imports Roq_Prelude
begin

text \<open>
  \<open>errors.go\<close>: the RoQ error codes (consecutive constants from zero), and the accessors and the
  message of \<open>SessionError\<close>.
\<close>

definition ErrRoQNoError :: u64 where "ErrRoQNoError = 0"
definition ErrRoQGeneralError :: u64 where "ErrRoQGeneralError = 1"
definition ErrRoQInternalError :: u64 where "ErrRoQInternalError = 2"
definition ErrRoQPacketError :: u64 where "ErrRoQPacketError = 3"
definition ErrRoQStreamCreationError :: u64 where "ErrRoQStreamCreationError = 4"
definition ErrRoQFrameCancelled :: u64 where "ErrRoQFrameCancelled = 5"
definition ErrRoQUnknownFlowID :: u64 where "ErrRoQUnknownFlowID = 6"
definition ErrRoQExpectationUnmet :: u64 where "ErrRoQExpectationUnmet = 7"

lemmas ErrRoQ_defs [roq_defs] =
  ErrRoQNoError_def ErrRoQGeneralError_def ErrRoQInternalError_def ErrRoQPacketError_def
  ErrRoQStreamCreationError_def ErrRoQFrameCancelled_def ErrRoQUnknownFlowID_def
  ErrRoQExpectationUnmet_def

definition Code :: "SessionError \<Rightarrow> u64" where
  "Code e = se_code e"

definition Reason :: "SessionError \<Rightarrow> string" where
  "Reason e = se_reason e"

definition Error :: "SessionError \<Rightarrow> string" where
  "Error e = ''roq session error '' @ show_nat (unat (se_code e)) @ '': '' @ se_reason e"

text \<open>The message determines the code and the reason: the digits end at the first colon.\<close>

lemma Error_inject: "Error e = Error e' \<longleftrightarrow> se_code e = se_code e' \<and> se_reason e = se_reason e'"
proof
  assume "Error e = Error e'"
  then have "show_nat (unat (se_code e)) @ CHR '':'' # '' '' @ se_reason e
           = show_nat (unat (se_code e')) @ CHR '':'' # '' '' @ se_reason e'"
    by (simp add: Error_def)
  then have "show_nat (unat (se_code e)) = show_nat (unat (se_code e')) \<and>
      '' '' @ se_reason e = '' '' @ se_reason e'"
    by (rule append_split_unique) (rule colon_notin_show_nat)+
  then show "se_code e = se_code e' \<and> se_reason e = se_reason e'"
    by (simp add: word_unat_eq_iff)
qed (simp add: Error_def)

section \<open>Properties\<close>

text \<open>Two session errors have the same message exactly if they have the same code and the same
  reason, so nothing of an error is lost in a log.\<close>

lemma session_error_message: "Error e = Error e' \<longleftrightarrow> Code e = Code e' \<and> Reason e = Reason e'"
  by (simp add: Error_inject Code_def Reason_def)

end
