(* ===== verification/Qlogger.thy ===== *)
theory Qlogger
  imports Qlog_Event Errors
begin

text \<open>
  \<open>qlogger.go\<close> and the calls that leave the library. An operation of the model returns, beside its
  result and new state, the list of calls it makes on the connection, the streams, the qlog
  recorder and the application's logger, in order.
\<close>

section \<open>Calls on the environment\<close>

datatype level = Debug | Warn

datatype attr = AttrUint string u64 | AttrInt string int | AttrBool string bool | AttrErr string goerror

text \<open>
  A logger drops its records (\<open>slog.DiscardHandler\<close>) or is one the application passed in, known by a
  number. A qlog recorder is known by a number, too.
\<close>

datatype logger = DiscardLogger | AppLogger nat

datatype effect =
    RecordEvent nat event
  | RecorderClose nat
  | LogRecord nat level string "attr list"
  | CancelRead int u64
  | CancelWrite int u64
  | StreamWrite int "byte list" int
  | StreamClose int
  | SetPriority int "32 word"
  | SetIncremental int bool
  | SendDatagram "byte list"
  | ConnCloseWithError u64 string

definition slog :: "logger \<Rightarrow> level \<Rightarrow> string \<Rightarrow> attr list \<Rightarrow> effect list" where
  "slog lg l msg as = (case lg of DiscardLogger \<Rightarrow> [] | AppLogger k \<Rightarrow> [LogRecord k l msg as])"

definition discardLogger :: logger where
  "discardLogger = DiscardLogger"

section \<open>The qlogger\<close>

record qlogger =
  recorder :: nat
  logData :: bool
  dataLimit :: int

definition qlogger_record :: "qlogger \<Rightarrow> event \<Rightarrow> effect list" where
  "qlogger_record q e = [RecordEvent (recorder q) e]"

definition qlogger_close :: "qlogger \<Rightarrow> effect list" where
  "qlogger_close q = [RecorderClose (recorder q)]"

definition rawData :: "qlogger \<Rightarrow> byte list \<Rightarrow> byte list" where
  "rawData q b =
     (if \<not> logData q then []
      else if 0 < dataLimit q \<and> dataLimit q < int (length b) then take (nat (dataLimit q)) b
      else b)"

text \<open>\<open>if s.qlog != nil\<close> around a record call.\<close>

definition qlog_if :: "qlogger option \<Rightarrow> (qlogger \<Rightarrow> event) \<Rightarrow> effect list" where
  "qlog_if q e = (case q of None \<Rightarrow> [] | Some ql \<Rightarrow> qlogger_record ql (e ql))"

text \<open>The packet of an event, from its flow, its wire image and the length of its payload.\<close>

definition wire_packet :: "qlogger \<Rightarrow> u64 \<Rightarrow> byte list \<Rightarrow> u64 \<Rightarrow> Packet" where
  "wire_packet q flow wire payloadLength =
     \<lparr>p_FlowID = flow, p_Length = word_of_nat (length wire),
      p_Raw = \<lparr>ri_Length = word_of_nat (length wire), ri_PayloadLength = payloadLength,
               ri_Data = rawData q wire\<rparr>\<rparr>"

lemma rawData_prefix: "rawData q b = take (length (rawData q b)) b"
  by (auto simp: rawData_def)

lemma length_rawData:
  "length (rawData q b) =
     (if \<not> logData q then 0
      else if 0 < dataLimit q then min (nat (dataLimit q)) (length b) else length b)"
  by (auto simp: rawData_def)

section \<open>Properties\<close>

text \<open>The data of an event is a prefix of the packet as it was on the wire: empty unless packet
  data is logged, and never longer than a positive limit.\<close>

lemma raw_data_prefix:
  "\<exists>rest. b = rawData q b @ rest \<and>
     length (rawData q b) =
       (if \<not> logData q then 0
        else if 0 < dataLimit q then min (nat (dataLimit q)) (length b) else length b)"
  using rawData_prefix [of q b] length_rawData [of q b] by (metis append_take_drop_id)

end
