(* ===== verification/Send_Stream.thy ===== *)
theory Send_Stream
  imports Varint Qlogger
begin

text \<open>
  \<open>rtp_send_stream.go\<close>: a stream that carries length-prefixed packets behind one flow ID, over a
  QUIC stream whose writes may be short. The QUIC stream is an interface: what a call of its \<open>Write\<close>
  returns, a count and an error, is an argument of the operations. Both methods that write hold the
  lock throughout, so each is one step.
\<close>

record RTPSendStream =
  rss_stream :: int
  rss_flowID :: u64
  rss_flowIDBytes :: "byte list"
  rss_qlog :: "qlogger option"
  rss_sentFlowID :: bool
  rss_buffer :: "byte list"
  rss_pending :: "byte list"

type_synonym write_result = "int \<times> goerror option"

definition newRTPSendStream :: "int \<Rightarrow> u64 \<Rightarrow> byte list \<Rightarrow> qlogger option \<Rightarrow> RTPSendStream" where
  "newRTPSendStream stream flowID flowIDBytes q =
     \<lparr>rss_stream = stream, rss_flowID = flowID, rss_flowIDBytes = flowIDBytes, rss_qlog = q,
      rss_sentFlowID = False, rss_buffer = [], rss_pending = []\<rparr>"

text \<open>\<open>flush\<close>; the slice \<open>s.pending[n:]\<close> is out of range for a count no writer may return.\<close>

definition flush ::
  "RTPSendStream \<Rightarrow> write_result \<Rightarrow> (goerror option \<times> RTPSendStream \<times> effect list) outcome" where
  "flush s r =
     (case r of (n, err) \<Rightarrow>
       if n < 0 \<or> int (length (rss_pending s)) < n then Panic ''slice bounds out of range''
       else
         (let pending = drop (nat n) (rss_pending s);
              err = (if err = None \<and> pending \<noteq> [] then Some io_ErrShortWrite else err)
          in Done (err, s\<lparr>rss_pending := pending\<rparr>,
                   [StreamWrite (rss_stream s) (rss_pending s) n])))"

text \<open>
  The part of \<open>WriteRTPBytes\<close> behind the flush: build the frame, write it, keep the tail the stream
  did not take, log the event. The result is the count of packet bytes on the stream.
\<close>

definition write_frame ::
  "varint_lib \<Rightarrow> RTPSendStream \<Rightarrow> byte list \<Rightarrow> write_result \<Rightarrow>
     ((int \<times> goerror option) \<times> RTPSendStream \<times> effect list) outcome" where
  "write_frame V s packet r =
     (let prefix = (if rss_sentFlowID s then [] else rss_flowIDBytes s);
          frameStart = length prefix
      in bind_outcome (vi_Append V prefix (word_of_nat (length packet))) (\<lambda>header.
         let headerLen = length header;
             buffer = header @ packet;
             (n, err) = r;
             s = s\<lparr>rss_sentFlowID := True, rss_buffer := buffer\<rparr>;
             short = n < int (length buffer)
         in if short \<and> n < 0 then Panic ''slice bounds out of range''
            else
              (let s = (if short then s\<lparr>rss_pending := drop (nat n) buffer\<rparr> else s);
                   err = (if short \<and> err = None then Some io_ErrShortWrite else err);
                   ev = qlog_if (rss_qlog s) (\<lambda>q.
                          StreamPacketCreated (word_of_int (rss_stream s))
                            (wire_packet q (rss_flowID s) (drop frameStart buffer)
                              (word_of_nat (length packet))))
               in Done ((min (max (n - int headerLen) 0) (int (length packet)), err), s,
                        StreamWrite (rss_stream s) buffer n # ev))))"

text \<open>
  \<open>WriteRTPBytes\<close>: \<open>rf\<close> is what the stream returns for the write of the pending tail, \<open>rw\<close> for the
  write of the frame.
\<close>

definition WriteRTPBytes ::
  "varint_lib \<Rightarrow> RTPSendStream \<Rightarrow> byte list \<Rightarrow> write_result \<Rightarrow> write_result \<Rightarrow>
     ((int \<times> goerror option) \<times> RTPSendStream \<times> effect list) outcome" where
  "WriteRTPBytes V s packet rf rw =
     (if rss_pending s \<noteq> []
      then bind_outcome (flush s rf) (\<lambda>(err, s1, es).
             if err \<noteq> None then Done ((0, err), s1, es)
             else bind_outcome (write_frame V s1 packet rw) (\<lambda>(res, s2, es2).
                    Done (res, s2, es @ es2)))
      else write_frame V s packet rw)"

definition CancelStream :: "RTPSendStream \<Rightarrow> u64 \<Rightarrow> effect list" where
  "CancelStream s errorCode = [CancelWrite (rss_stream s) errorCode]"

text \<open>\<open>Close\<close> passes on what closing the QUIC stream returns.\<close>

definition RTPSendStream_Close ::
  "RTPSendStream \<Rightarrow> goerror option \<Rightarrow> goerror option \<times> effect list" where
  "RTPSendStream_Close s closeErr = (closeErr, [StreamClose (rss_stream s)])"

section \<open>What goes on the wire\<close>

text \<open>The bytes a stream accepted, from the writes made on it: of each, the first \<open>n\<close>.\<close>

fun wire :: "int \<Rightarrow> effect list \<Rightarrow> byte list" where
  "wire i [] = []"
| "wire i (StreamWrite j p n # es) = (if j = i then take (nat n) p else []) @ wire i es"
| "wire i (_ # es) = wire i es"

lemma wire_append [simp]: "wire i (xs @ ys) = wire i xs @ wire i ys"
  by (induction i xs rule: wire.induct) auto

lemma wire_qlog_if [simp]: "wire i (qlog_if q e) = []"
  by (simp add: qlog_if_def qlogger_record_def split: option.split)

text \<open>The frame of a packet, and a writer's contract: a count between zero and the length offered.\<close>

definition frame :: "varint_lib \<Rightarrow> byte list \<Rightarrow> byte list" where
  "frame V packet = vi_enc V (word_of_nat (length packet)) @ packet"

definition packet_ok :: "byte list \<Rightarrow> bool" where
  "packet_ok packet \<longleftrightarrow> length packet < 2 ^ 62"

definition writer_ok :: "nat \<Rightarrow> write_result \<Rightarrow> bool" where
  "writer_ok len r \<longleftrightarrow> 0 \<le> fst r \<and> fst r \<le> int len"

text \<open>Whether a call gets past the flush, so that its packet is framed and will reach the peer.\<close>

definition accepts :: "RTPSendStream \<Rightarrow> write_result \<Rightarrow> bool" where
  "accepts s rf \<longleftrightarrow> rss_pending s = [] \<or> (fst rf = int (length (rss_pending s)) \<and> snd rf = None)"

text \<open>The bytes still owed before any frame: the flow ID of a fresh stream.\<close>

definition owed :: "RTPSendStream \<Rightarrow> byte list" where
  "owed s = (if rss_sentFlowID s then [] else rss_flowIDBytes s)"

lemma packet_ok_fits: "packet_ok p \<Longrightarrow> fits62 (word_of_nat (length p))"
  unfolding packet_ok_def by (rule fits62_word_of_nat)

lemma flush_Done:
  assumes "flush s rf = Done (e, s', es)"
  shows "wire (rss_stream s) es @ rss_pending s' = rss_pending s"
    and "e = None \<longleftrightarrow> snd rf = None \<and> fst rf = int (length (rss_pending s))"
    and "e = None \<Longrightarrow> rss_pending s' = []"
    and "s' = s\<lparr>rss_pending := rss_pending s'\<rparr>"
  using assms by (auto simp: flush_def Let_def split: prod.splits if_splits)

text \<open>The two ways a call returns: past the flush, or with the error of the flush.\<close>

lemma WriteRTPBytes_cases:
  assumes "WriteRTPBytes V s packet rf rw = Done (res, s', es)"
  obtains
    (framed) es1 es2 where "accepts s rf" "wire (rss_stream s) es1 = rss_pending s" "es = es1 @ es2"
      "write_frame V (s\<lparr>rss_pending := []\<rparr>) packet rw = Done (res, s', es2)"
  | (refused) e where "\<not> accepts s rf" "res = (0, Some e)" "s' = s\<lparr>rss_pending := rss_pending s'\<rparr>"
      "wire (rss_stream s) es @ rss_pending s' = rss_pending s"
proof (cases "rss_pending s = []")
  case True
  then have upd: "s\<lparr>rss_pending := []\<rparr> = s"
    by (cases s) simp
  have "write_frame V (s\<lparr>rss_pending := []\<rparr>) packet rw = Done (res, s', es)"
    unfolding upd using assms True by (simp add: WriteRTPBytes_def)
  moreover have "accepts s rf" and "wire (rss_stream s) [] = rss_pending s"
    using True by (simp_all add: accepts_def)
  ultimately show thesis
    using framed [of "[]" es] by simp
next
  case False
  then obtain e s1 es1 where f: "flush s rf = Done (e, s1, es1)"
    using assms by (auto simp: WriteRTPBytes_def bind_outcome_Done_iff)
  note f' = flush_Done [OF f]
  have acc: "accepts s rf \<longleftrightarrow> e = None"
    using f'(2) False by (auto simp: accepts_def)
  show thesis
  proof (cases e)
    case None
    with f'(3,4) have s1: "s1 = s\<lparr>rss_pending := []\<rparr>"
      by simp
    obtain es2 where "write_frame V s1 packet rw = Done (res, s', es2)" and "es = es1 @ es2"
      using assms f None False by (auto simp: WriteRTPBytes_def bind_outcome_Done_iff)
    then show thesis
      using framed acc None f'(1) s1 by simp
  next
    case (Some x)
    then have "res = (0, Some x)" "s' = s1" "es = es1"
      using assms f False by (auto simp: WriteRTPBytes_def)
    then show thesis
      using refused [of x] acc Some f'(1,4) by simp
  qed
qed

context quicvarint
begin

text \<open>The call in closed form, over the bytes it puts on the stream.\<close>

lemma write_frame_eq:
  assumes "packet_ok packet" and "buf = owed s @ frame V packet"
  shows "write_frame V s packet (n, err) =
    (if n < 0 then Panic ''slice bounds out of range''
     else Done
       ((min (max (n - (int (length buf) - int (length packet))) 0) (int (length packet)),
         if n < int (length buf) \<and> err = None then Some io_ErrShortWrite else err),
        s\<lparr>rss_sentFlowID := True, rss_buffer := buf,
          rss_pending := (if n < int (length buf) then drop (nat n) buf else rss_pending s)\<rparr>,
        StreamWrite (rss_stream s) buf n #
        qlog_if (rss_qlog s) (\<lambda>q.
          StreamPacketCreated (word_of_int (rss_stream s))
            (wire_packet q (rss_flowID s) (frame V packet) (word_of_nat (length packet))))))"
proof -
  have app: "vi_Append V (owed s) (word_of_nat (length packet))
      = Done (owed s @ vi_enc V (word_of_nat (length packet)))"
    using assms(1) by (intro Append_fits packet_ok_fits)
  have "n < 0 \<Longrightarrow> n < int (length buf)"
    by simp
  then show ?thesis
    unfolding write_frame_def Let_def owed_def [symmetric] app bind_outcome.simps assms(2) frame_def
    by (simp add: algebra_simps)
qed

lemma write_frame_Done:
  assumes "packet_ok packet" and "rss_pending s = []"
    and "write_frame V s packet rw = Done (res, s', es)"
  shows "wire (rss_stream s) es @ rss_pending s' = owed s @ frame V packet"
    and "owed s' = []" and "rss_stream s' = rss_stream s"
    and "rss_flowIDBytes s' = rss_flowIDBytes s"
proof -
  define buf where "buf = owed s @ frame V packet"
  obtain n err where rw: "rw = (n, err)"
    by (cases rw)
  note d = assms(3) [unfolded rw write_frame_eq [OF assms(1) buf_def]]
  show "wire (rss_stream s) es @ rss_pending s' = owed s @ frame V packet"
    using d assms(2) unfolding buf_def [symmetric] by (auto split: if_splits)
  show "owed s' = []" "rss_stream s' = rss_stream s" "rss_flowIDBytes s' = rss_flowIDBytes s"
    using d by (auto simp: owed_def split: if_splits)
qed

lemma write_frame_result:
  assumes "packet_ok packet" and "rss_pending s = []"
    and "write_frame V s packet rw = Done ((n, err), s', es)"
  shows "n = max 0 (int (length packet) - int (length (rss_pending s')))"
    and "err = None \<longleftrightarrow> snd rw = None \<and> rss_pending s' = []"
proof -
  define buf where "buf = owed s @ frame V packet"
  have len: "length packet \<le> length buf"
    by (simp add: buf_def frame_def)
  obtain k e where rw: "rw = (k, e)"
    by (cases rw)
  note d = assms(3) [unfolded rw write_frame_eq [OF assms(1) buf_def]]
  show "n = max 0 (int (length packet) - int (length (rss_pending s')))"
    using d len assms(2) by (auto split: if_splits)
  show "err = None \<longleftrightarrow> snd rw = None \<and> rss_pending s' = []"
    using d assms(2) rw by (auto split: if_splits)
qed

lemma write_frame_no_panic:
  "packet_ok packet \<Longrightarrow> 0 \<le> fst rw \<Longrightarrow> \<exists>res s' es. write_frame V s packet rw = Done (res, s', es)"
  by (cases rw) (simp add: write_frame_eq [OF _ refl])

text \<open>One call: the bytes taken and the bytes kept are exactly the old tail, then the new frame.\<close>

lemma WriteRTPBytes_wire:
  assumes "packet_ok packet" and "WriteRTPBytes V s packet rf rw = Done (res, s', es)"
  shows "wire (rss_stream s) es @ rss_pending s' @ owed s' =
           rss_pending s @ owed s @ (if accepts s rf then frame V packet else [])
         \<and> rss_stream s' = rss_stream s"
  using assms(2)
proof (cases rule: WriteRTPBytes_cases)
  case (framed es1 es2)
  have "rss_pending (s\<lparr>rss_pending := []\<rparr>) = []"
    by simp
  from write_frame_Done [OF assms(1) this framed(4)] show ?thesis
    using framed by (simp add: owed_def)
next
  case (refused e)
  have "owed s' = owed s" and "rss_stream s' = rss_stream s"
    by (subst refused(3), simp add: owed_def)+
  then show ?thesis
    using refused(1,4) by (simp flip: append.assoc)
qed

lemma WriteRTPBytes_count:
  assumes "packet_ok packet" and "accepts s rf"
    and "WriteRTPBytes V s packet rf rw = Done ((n, err), s', es)"
  shows "n = max 0 (int (length packet) - int (length (rss_pending s')))"
    and "err = None \<longleftrightarrow> snd rw = None \<and> rss_pending s' = []"
proof -
  obtain es2 where "write_frame V (s\<lparr>rss_pending := []\<rparr>) packet rw = Done ((n, err), s', es2)"
    using assms(3) by (cases rule: WriteRTPBytes_cases) (use assms(2) in auto)
  from write_frame_result [OF assms(1) _ this]
  show "n = max 0 (int (length packet) - int (length (rss_pending s')))"
    and "err = None \<longleftrightarrow> snd rw = None \<and> rss_pending s' = []"
    by simp_all
qed

lemma WriteRTPBytes_success:
  assumes "packet_ok packet" and "WriteRTPBytes V s packet rf rw = Done ((n, None), s', es)"
  shows "accepts s rf" and "rss_pending s' = []" and "n = int (length packet)"
proof -
  show acc: "accepts s rf"
    using assms(2) by (cases rule: WriteRTPBytes_cases) auto
  note c = WriteRTPBytes_count [OF assms(1) acc assms(2)]
  from c(2) show "rss_pending s' = []" by simp
  with c(1) show "n = int (length packet)" by simp
qed

lemma WriteRTPBytes_no_panic:
  assumes "packet_ok packet" and "rss_pending s \<noteq> [] \<Longrightarrow> writer_ok (length (rss_pending s)) rf"
    and "0 \<le> fst rw"
  shows "\<exists>res s' es. WriteRTPBytes V s packet rf rw = Done (res, s', es)"
proof (cases "rss_pending s = []")
  case True
  then show ?thesis
    using write_frame_no_panic [OF assms(1,3)] by (simp add: WriteRTPBytes_def)
next
  case False
  with assms(2) obtain e s1 es1 where f: "flush s rf = Done (e, s1, es1)"
    by (cases rf) (auto simp: flush_def writer_ok_def Let_def)
  obtain res s2 es2 where "write_frame V s1 packet rw = Done (res, s2, es2)"
    using write_frame_no_panic [OF assms(1,3)] by blast
  with f False show ?thesis
    by (cases e) (simp_all add: WriteRTPBytes_def)
qed

end

section \<open>A sequence of calls\<close>

text \<open>A call with the results of the writes it makes, and a run of calls on one stream.\<close>

type_synonym send_call = "byte list \<times> write_result \<times> write_result"

fun send_run ::
  "varint_lib \<Rightarrow> RTPSendStream \<Rightarrow> send_call list \<Rightarrow> (RTPSendStream \<times> effect list) outcome" where
  "send_run V s [] = Done (s, [])"
| "send_run V s ((p, rf, rw) # cs) =
     bind_outcome (WriteRTPBytes V s p rf rw) (\<lambda>(res, s1, es).
       bind_outcome (send_run V s1 cs) (\<lambda>(s2, es2). Done (s2, es @ es2)))"

text \<open>The packets of a run that were framed: those whose call got past the flush.\<close>

fun committed :: "varint_lib \<Rightarrow> RTPSendStream \<Rightarrow> send_call list \<Rightarrow> byte list list" where
  "committed V s [] = []"
| "committed V s ((p, rf, rw) # cs) =
     (if accepts s rf then [p] else []) @
     (case WriteRTPBytes V s p rf rw of
        Done (res, s1, es) \<Rightarrow> committed V s1 cs
      | Panic m \<Rightarrow> [])"

context quicvarint
begin

lemma send_run_wire:
  assumes "send_run V s cs = Done (s', es)" and "\<forall>c \<in> set cs. packet_ok (fst c)"
  shows "wire (rss_stream s) es @ rss_pending s' @ owed s' =
           rss_pending s @ owed s @ concat (map (frame V) (committed V s cs))
         \<and> rss_stream s' = rss_stream s"
  using assms
proof (induction cs arbitrary: s es)
  case Nil
  then show ?case by simp
next
  case (Cons c cs)
  obtain p rf rw where c: "c = (p, rf, rw)"
    by (cases c) auto
  from Cons.prems(1) obtain res s1 es1 es2 where
    w: "WriteRTPBytes V s p rf rw = Done (res, s1, es1)" and
    r: "send_run V s1 cs = Done (s', es2)" and es: "es = es1 @ es2"
    by (auto simp: c bind_outcome_Done_iff)
  have ok: "packet_ok p" and oks: "\<forall>c \<in> set cs. packet_ok (fst c)"
    using Cons.prems(2) by (simp_all add: c)
  note ih = Cons.IH [OF r oks]
  note step = WriteRTPBytes_wire [OF ok w]
  have "wire (rss_stream s) es @ rss_pending s' @ owed s'
      = wire (rss_stream s) es1 @ rss_pending s1 @ owed s1 @ concat (map (frame V) (committed V s1 cs))"
    using ih step by (simp add: es)
  also have "\<dots> = (wire (rss_stream s) es1 @ rss_pending s1 @ owed s1)
      @ concat (map (frame V) (committed V s1 cs))"
    by simp
  finally show ?case
    using ih step w by (simp add: c)
qed

end

section \<open>Properties\<close>

text \<open>Evaluation of concrete calls.\<close>

lemmas send_eval = newRTPSendStream_def WriteRTPBytes_def write_frame_def flush_def Let_def rfc_small
  qlog_if_def accepts_def owed_def frame_def packet_ok_def writer_ok_def

text \<open>C10: whatever the QUIC stream accepts of each write, the bytes on the wire followed by the
  bytes kept for the next call are the flow ID once and then the frames of the packets that were
  accepted, in order and without gaps: a short write never corrupts the framing.\<close>

theorem send_stream_wire:
  assumes "quicvarint V"
    and "send_run V (newRTPSendStream sid i (vi_enc V i) q) cs = Done (s', es)"
    and "\<forall>c \<in> set cs. packet_ok (fst c)"
  shows "wire sid es @ rss_pending s' @ owed s' =
    vi_enc V i @ concat (map (frame V) (committed V (newRTPSendStream sid i (vi_enc V i) q) cs))"
  using quicvarint.send_run_wire [OF assms] by (simp add: newRTPSendStream_def owed_def)

theorem send_stream_wire_witness:
  "\<exists>s' es. send_run rfc9000 (newRTPSendStream 4 7 (vi_enc rfc9000 7) None)
       [([1, 2], (0, None), (2, None)), ([3], (2, None), (1, None))] = Done (s', es) \<and>
     wire 4 es = [7, 2, 1, 2, 1] \<and> rss_pending s' = [3] \<and>
     wire 4 es @ rss_pending s' @ owed s' = vi_enc rfc9000 7 @ concat (map (frame rfc9000)
       (committed rfc9000 (newRTPSendStream 4 7 (vi_enc rfc9000 7) None)
         [([1, 2], (0, None), (2, None)), ([3], (2, None), (1, None))]))"
proof -
  let ?cs = "[([1, 2], (0, None), (2, None)), ([3], (2, None), (1, None))]
    :: (byte list \<times> write_result \<times> write_result) list"
  obtain s' es where r: "send_run rfc9000 (newRTPSendStream 4 7 (vi_enc rfc9000 7) None) ?cs = Done (s', es)"
    and "wire 4 es = [7, 2, 1, 2, 1]" and "rss_pending s' = [3]"
    by (simp add: send_eval)
  moreover have "\<forall>c \<in> set ?cs. packet_ok (fst c)"
    by (simp add: packet_ok_def)
  ultimately show ?thesis
    using send_stream_wire [OF rfc.quicvarint_axioms r] by blast
qed

text \<open>C21: a call without an error has put the whole packet on the wire, behind everything owed from
  before, leaves nothing pending and returns the length of the packet.\<close>

theorem write_success:
  assumes "quicvarint V" and "packet_ok p" and "WriteRTPBytes V s p rf rw = Done ((n, None), s', es)"
  shows "n = int (length p) \<and> rss_pending s' = [] \<and> owed s' = [] \<and>
    wire (rss_stream s) es = rss_pending s @ owed s @ frame V p"
proof -
  note ok = quicvarint.WriteRTPBytes_success [OF assms]
  have w: "wire (rss_stream s) es @ owed s' = rss_pending s @ owed s @ frame V p"
    using quicvarint.WriteRTPBytes_wire [OF assms] ok by simp
  have "owed s' = []"
    using assms(3)
  proof (cases rule: WriteRTPBytes_cases)
    case (framed es1 es2)
    then show ?thesis
      using quicvarint.write_frame_Done(2) [OF assms(1,2) _ framed(4)] by simp
  qed simp
  with w ok show ?thesis by simp
qed

theorem write_success_witness:
  "\<exists>n s' es. WriteRTPBytes rfc9000 ((newRTPSendStream 4 7 [7] None)\<lparr>rss_pending := [9]\<rparr>) [1, 2] (1, None) (4, None)
       = Done ((n, None), s', es) \<and> n = 2 \<and> wire 4 es = [9] @ [7] @ frame rfc9000 [1, 2]"
proof -
  let ?s = "(newRTPSendStream 4 7 [7] None)\<lparr>rss_pending := [9]\<rparr>"
  obtain n s' es where r: "WriteRTPBytes rfc9000 ?s [1, 2] (1, None) (4, None) = Done ((n, None), s', es)"
    by (simp add: send_eval)
  have "packet_ok [1, 2]"
    by (simp add: packet_ok_def)
  from write_success [OF rfc.quicvarint_axioms this r] r show ?thesis
    by (auto simp: newRTPSendStream_def owed_def)
qed

text \<open>If a packet was accepted, the count is the number of its bytes on the wire, and the error
  is nil exactly if the stream took everything without an error; what it did not take is the tail
  of the frame.\<close>

lemma write_count:
  assumes "quicvarint V" and "packet_ok p" and "accepts s rf"
    and "WriteRTPBytes V s p rf rw = Done ((n, err), s', es)"
  shows "n = max 0 (int (length p) - int (length (rss_pending s'))) \<and>
    (err = None \<longleftrightarrow> snd rw = None \<and> rss_pending s' = []) \<and>
    wire (rss_stream s) es @ rss_pending s' @ owed s' = rss_pending s @ owed s @ frame V p"
  using quicvarint.WriteRTPBytes_count [OF assms] quicvarint.WriteRTPBytes_wire [OF assms(1,2,4)] assms(3)
  by simp

text \<open>A call whose flush fails reports zero bytes and an error, and nothing of its packet is
  written or kept: unlike a short write, such a packet never reaches the peer unless it is sent
  again.\<close>

lemma write_refused:
  assumes "quicvarint V" and "packet_ok p" and "\<not> accepts s rf"
    and "WriteRTPBytes V s p rf rw = Done (res, s', es)"
  shows "fst res = 0 \<and> snd res \<noteq> None \<and> wire (rss_stream s) es @ rss_pending s' = rss_pending s \<and>
    owed s' = owed s"
  using assms(4)
proof (cases rule: WriteRTPBytes_cases)
  case (refused e)
  have "owed s' = owed s"
    by (subst refused(3)) (simp add: owed_def)
  then show ?thesis
    using refused(2,4) by simp
qed (use assms(3) in simp)

text \<open>A call never panics on a stream that keeps the contract of \<open>io.Writer\<close>, a count between
  zero and the length of what it was given.\<close>

lemma write_no_panic:
  assumes "quicvarint V" and "packet_ok p" and "writer_ok (length (rss_pending s)) rf"
    and "writer_ok (length (owed s @ frame V p)) rw"
  shows "\<exists>res s' es. WriteRTPBytes V s p rf rw = Done (res, s', es)"
  using quicvarint.WriteRTPBytes_no_panic [OF assms(1,2)] assms(3,4) by (simp add: writer_ok_def)

end
