(* ===== verification/Options.thy ===== *)
theory Options
  imports Qlogger
begin

text \<open>
  \<open>options.go\<close>: the configuration of a session and the options that set it. An option is a function
  on the configuration that may fail; it is applied through a pointer, so also a failing option may
  have written to the configuration. The qlog trace is an interface of quic-go: which schemas it
  supports and the recorder it hands out are part of its value.
\<close>

record trace =
  SupportsSchemas :: "string \<Rightarrow> bool"
  AddProducer :: nat

record sessionConfig =
  receiveBufferSize :: int
  unknownFlowBufferSize :: int
  cfg_logger :: logger
  qlogTrace :: "trace option"
  qlogPacketData :: bool
  qlogPacketDataLimit :: int

type_synonym roq_option = "sessionConfig \<Rightarrow> goerror option \<times> sessionConfig"

definition defaultReceiveBufferSize :: int where
  "defaultReceiveBufferSize = 1024"

definition defaultUnknownFlowBufferSize :: int where
  "defaultUnknownFlowBufferSize = 16"

definition default_config :: sessionConfig where
  "default_config =
     \<lparr>receiveBufferSize = defaultReceiveBufferSize,
      unknownFlowBufferSize = defaultUnknownFlowBufferSize,
      cfg_logger = discardLogger, qlogTrace = None,
      qlogPacketData = False, qlogPacketDataLimit = 0\<rparr>"

text \<open>The loop of \<open>newSessionConfig\<close>; \<open>None\<close> is a nil option.\<close>

fun apply_options :: "roq_option option list \<Rightarrow> sessionConfig \<Rightarrow> goerror + sessionConfig" where
  "apply_options [] c = Inr c"
| "apply_options (None # opts) c =
     Inl (Wrapped ''invalid option: option must not be nil'' errInvalidOption)"
| "apply_options (Some opt # opts) c =
     (case opt c of (Some e, _) \<Rightarrow> Inl e | (None, c') \<Rightarrow> apply_options opts c')"

definition newSessionConfig :: "roq_option option list \<Rightarrow> goerror + sessionConfig" where
  "newSessionConfig opts = apply_options opts default_config"

definition WithReceiveBufferSize :: "int \<Rightarrow> roq_option" where
  "WithReceiveBufferSize packets c =
     (if packets \<le> 0
      then (Some (Wrapped (''invalid option: receive buffer size must be greater than zero, got ''
                           @ show_int packets) errInvalidOption), c)
      else (None, c\<lparr>receiveBufferSize := packets\<rparr>))"

definition WithUnknownFlowBufferSize :: "int \<Rightarrow> roq_option" where
  "WithUnknownFlowBufferSize flows c =
     (if flows \<le> 0
      then (Some (Wrapped (''invalid option: unknown flow buffer size must be greater than zero, got ''
                           @ show_int flows) errInvalidOption), c)
      else (None, c\<lparr>unknownFlowBufferSize := flows\<rparr>))"

definition WithQlogTrace :: "trace option \<Rightarrow> roq_option" where
  "WithQlogTrace t c = (None, c\<lparr>qlogTrace := t\<rparr>)"

definition WithQlogPacketData :: "int \<Rightarrow> roq_option" where
  "WithQlogPacketData maxBytes c =
     (if maxBytes < 0
      then (Some (Wrapped (''invalid option: qlog packet data limit must not be negative, got ''
                           @ show_int maxBytes) errInvalidOption), c)
      else (None, c\<lparr>qlogPacketData := True, qlogPacketDataLimit := maxBytes\<rparr>))"

definition WithLogger :: "logger option \<Rightarrow> roq_option" where
  "WithLogger lg c =
     (case lg of
        None \<Rightarrow> (Some (Wrapped ''invalid option: logger must not be nil'' errInvalidOption), c)
      | Some l \<Rightarrow> (None, c\<lparr>cfg_logger := l\<rparr>))"

lemmas option_defs [roq_defs] =
  WithReceiveBufferSize_def WithUnknownFlowBufferSize_def WithQlogTrace_def
  WithQlogPacketData_def WithLogger_def

text \<open>The options an application can build with the library.\<close>

inductive library_option :: "roq_option \<Rightarrow> bool" where
  "library_option (WithReceiveBufferSize n)"
| "library_option (WithUnknownFlowBufferSize n)"
| "library_option (WithQlogTrace t)"
| "library_option (WithQlogPacketData n)"
| "library_option (WithLogger lg)"

definition config_ok :: "sessionConfig \<Rightarrow> bool" where
  "config_ok c \<longleftrightarrow>
     0 < receiveBufferSize c \<and> 0 < unknownFlowBufferSize c \<and> 0 \<le> qlogPacketDataLimit c"

lemma config_ok_default: "config_ok default_config"
  by (simp add: config_ok_def default_config_def defaultReceiveBufferSize_def
      defaultUnknownFlowBufferSize_def)

lemma library_option_ok:
  assumes "library_option opt" and "config_ok c" and "opt c = (r, c')"
  shows "config_ok c'" and "r = Some e \<Longrightarrow> errors_Is e errInvalidOption \<and> c' = c"
  using assms by (auto elim!: library_option.cases simp: roq_defs config_ok_def
      split: if_splits option.splits)

lemma apply_options_append:
  "apply_options (xs @ ys) c =
     (case apply_options xs c of Inl e \<Rightarrow> Inl e | Inr c' \<Rightarrow> apply_options ys c')"
  by (induction xs c rule: apply_options.induct) (auto split: prod.splits option.splits)

lemma apply_options_library:
  assumes "config_ok c" and "\<And>opt. Some opt \<in> set opts \<Longrightarrow> library_option opt"
  shows "case apply_options opts c of
           Inl e \<Rightarrow> errors_Is e errInvalidOption | Inr c' \<Rightarrow> config_ok c'"
  using assms
proof (induction opts c rule: apply_options.induct)
  case (3 opt opts c)
  obtain r c' where oc: "opt c = (r, c')"
    by (cases "opt c")
  have lib: "library_option opt"
    using "3.prems"(2) by simp
  show ?case
  proof (cases r)
    case None
    then have "config_ok c'"
      using library_option_ok(1) [OF lib "3.prems"(1) oc] by simp
    then show ?thesis
      using "3.IH" [OF oc [symmetric] None] "3.prems"(2) oc None by auto
  next
    case (Some e)
    then show ?thesis
      using library_option_ok(2) [OF lib "3.prems"(1) oc] oc by simp
  qed
qed auto

section \<open>Properties\<close>

text \<open>C31: options built with the library give a configuration with positive buffer sizes and a data
  limit that is not negative, or an error that is \<open>errInvalidOption\<close>; a nil option is always an error.\<close>

theorem session_config_valid:
  assumes "\<And>opt. Some opt \<in> set opts \<Longrightarrow> library_option opt"
  shows "case newSessionConfig opts of
      Inl e \<Rightarrow> errors_Is e errInvalidOption
    | Inr c \<Rightarrow> None \<notin> set opts \<and> 0 < receiveBufferSize c \<and> 0 < unknownFlowBufferSize c \<and>
               0 \<le> qlogPacketDataLimit c"
proof -
  have "None \<notin> set opts" if "apply_options opts c = Inr c'" for c c'
    using that by (induction opts c rule: apply_options.induct) (auto split: prod.splits option.splits)
  then show ?thesis
    using apply_options_library [OF config_ok_default assms, of opts]
    by (auto simp: newSessionConfig_def config_ok_def split: sum.splits)
qed

theorem session_config_valid_witness:
  "case newSessionConfig [Some (WithReceiveBufferSize 8), Some (WithReceiveBufferSize 0)] of
      Inl e \<Rightarrow> errors_Is e errInvalidOption
    | Inr c \<Rightarrow> None \<notin> set [Some (WithReceiveBufferSize 8), Some (WithReceiveBufferSize 0)] \<and>
               0 < receiveBufferSize c \<and> 0 < unknownFlowBufferSize c \<and> 0 \<le> qlogPacketDataLimit c"
  by (rule session_config_valid) (auto intro: library_option.intros)

end
