(* ===== verification/Send_Flow.thy ===== *)
theory Send_Flow
  imports Send_Stream Options
begin

text \<open>
  \<open>send_flow.go\<close>: a send flow writes packets as datagrams prefixed with its flow ID and opens streams
  that carry it. Its streams are shared with the application, so they are known by reference. The
  results of the connection's and the streams' methods are arguments, and so is the callback
  \<open>onClose\<close>, a function on the state of whoever created the flow.
\<close>

record SendFlow =
  sf_id :: u64
  sf_flowID :: "byte list"
  sf_streams :: "nat list"
  sf_closedErr :: "goerror option"
  sf_qlog :: "qlogger option"
  sf_logger :: logger

text \<open>\<open>newFlow\<close>; \<open>quicvarint.Len\<close> and \<open>quicvarint.Append\<close> panic on an ID beyond 62 bits.\<close>

definition newFlow ::
  "varint_lib \<Rightarrow> u64 \<Rightarrow> qlogger option \<Rightarrow> logger option \<Rightarrow> SendFlow outcome" where
  "newFlow V i q lg =
     bind_outcome (vi_Len V i) (\<lambda>_.
     bind_outcome (vi_Append V [] i) (\<lambda>flowID.
       Done \<lparr>sf_id = i, sf_flowID = flowID, sf_streams = [], sf_closedErr = None, sf_qlog = q,
             sf_logger = (case lg of None \<Rightarrow> discardLogger | Some l \<Rightarrow> l)\<rparr>))"

definition sf_isClosed :: "SendFlow \<Rightarrow> goerror option" where
  "sf_isClosed f = sf_closedErr f"

text \<open>\<open>WriteRTPBytes\<close>; \<open>sendErr\<close> is what \<open>SendDatagram\<close> returns.\<close>

definition SendFlow_WriteRTPBytes ::
  "SendFlow \<Rightarrow> byte list \<Rightarrow> goerror option \<Rightarrow> goerror option \<times> effect list" where
  "SendFlow_WriteRTPBytes f packet sendErr =
     (case sf_isClosed f of
        Some e \<Rightarrow> (Some e, [])
      | None \<Rightarrow>
          (let buf = sf_flowID f @ packet in
           (sendErr,
            qlog_if (sf_qlog f) (\<lambda>q.
              DatagramPacketCreated (wire_packet q (sf_id f) buf (word_of_nat (length packet)))) @
            [SendDatagram buf])))"

text \<open>
  \<open>NewSendStream\<close>: \<open>openRes\<close> is what \<open>OpenUniStreamSync\<close> returns, an error or the ID of the stream and
  whether it implements \<open>PrioritySendStream\<close>; \<open>ref\<close> is the reference of the new stream. The flow's
  lock is taken for the check at the start and for the append at the end only.
\<close>

definition NewSendStream_append :: "nat \<Rightarrow> SendFlow \<Rightarrow> SendFlow" where
  "NewSendStream_append ref f = f\<lparr>sf_streams := sf_streams f @ [ref]\<rparr>"

definition NewSendStream ::
  "SendFlow \<Rightarrow> 32 word \<Rightarrow> bool \<Rightarrow> goerror + (int \<times> bool) \<Rightarrow> nat \<Rightarrow>
     (goerror + RTPSendStream) \<times> SendFlow \<times> effect list" where
  "NewSendStream f priority incremental openRes ref =
     (case sf_isClosed f of
        Some e \<Rightarrow> (Inl e, f, [])
      | None \<Rightarrow>
          (case openRes of
             Inl e \<Rightarrow> (Inl e, f, [])
           | Inr (i, hasPriority) \<Rightarrow>
               (let prio = (if hasPriority
                      then slog (sf_logger f) Debug ''setting stream priority''
                             [AttrUint ''flowID'' (sf_id f), AttrInt ''streamID'' i,
                              AttrUint ''priority'' (ucast priority), AttrBool ''incremental'' incremental]
                           @ [SetPriority i priority, SetIncremental i incremental]
                      else []);
                    stream = newRTPSendStream i (sf_id f) (sf_flowID f) (sf_qlog f);
                    ev = qlog_if (sf_qlog f) (\<lambda>q. StreamOpened (sf_id f) (word_of_int i))
                in (Inr stream, NewSendStream_append ref f, prio @ ev))))"

text \<open>
  \<open>Close\<close>: close every stream, whatever the others return, run the callback, mark the flow closed.
  \<open>deref\<close> finds the stream of a reference, \<open>closeErr\<close> is what closing the QUIC stream of an ID returns.
\<close>

fun close_streams ::
  "(nat \<Rightarrow> RTPSendStream) \<Rightarrow> (int \<Rightarrow> goerror option) \<Rightarrow> nat list \<Rightarrow>
     goerror option list \<times> effect list" where
  "close_streams deref closeErr [] = ([], [])"
| "close_streams deref closeErr (ref # refs) =
     (let s = deref ref;
          (e, es) = RTPSendStream_Close s (closeErr (rss_stream s));
          (errs, es2) = close_streams deref closeErr refs
      in (e # errs, es @ es2))"

definition SendFlow_Close ::
  "(nat \<Rightarrow> RTPSendStream) \<Rightarrow> (int \<Rightarrow> goerror option) \<Rightarrow> ('s \<Rightarrow> 's) \<Rightarrow> SendFlow \<Rightarrow> 's \<Rightarrow>
     goerror option \<times> SendFlow \<times> 's \<times> effect list" where
  "SendFlow_Close deref closeErr onClose f st =
     (let (errs, es) = close_streams deref closeErr (sf_streams f)
      in (errors_Join errs, f\<lparr>sf_closedErr := Some errClosed\<rparr>, onClose st, es))"

definition SendFlow_ID :: "SendFlow \<Rightarrow> u64" where
  "SendFlow_ID f = sf_id f"

section \<open>Properties of the operations\<close>

lemma close_streams_eq:
  "close_streams deref closeErr refs =
     (map (\<lambda>r. closeErr (rss_stream (deref r))) refs,
      map (\<lambda>r. StreamClose (rss_stream (deref r))) refs)"
  by (induction refs) (simp_all add: RTPSendStream_Close_def Let_def)

lemma SendFlow_Close_eq:
  "SendFlow_Close deref closeErr onClose f st =
     (errors_Join (map (\<lambda>r. closeErr (rss_stream (deref r))) (sf_streams f)),
      f\<lparr>sf_closedErr := Some errClosed\<rparr>, onClose st,
      map (\<lambda>r. StreamClose (rss_stream (deref r))) (sf_streams f))"
  by (simp add: SendFlow_Close_def close_streams_eq)

context quicvarint
begin

lemma newFlow_ok:
  "fits62 i \<Longrightarrow> newFlow V i q lg =
     Done \<lparr>sf_id = i, sf_flowID = vi_enc V i, sf_streams = [], sf_closedErr = None, sf_qlog = q,
           sf_logger = (case lg of None \<Rightarrow> discardLogger | Some l \<Rightarrow> l)\<rparr>"
  by (simp add: newFlow_def Len_fits Append_fits)

lemma newFlow_panics: "\<not> fits62 i \<Longrightarrow> \<exists>m. newFlow V i q lg = Panic m"
  using Len_big by (fastforce simp: newFlow_def)

lemma newFlow_Done:
  assumes "newFlow V i q lg = Done f"
  shows "fits62 i" and "sf_id f = i" and "sf_flowID f = vi_enc V i" and "sf_closedErr f = None"
    and "sf_streams f = []" and "sf_qlog f = q"
proof -
  show f: "fits62 i"
    using newFlow_panics [of i q lg] assms by (cases "fits62 i") auto
  show "sf_id f = i" "sf_flowID f = vi_enc V i" "sf_closedErr f = None" "sf_streams f = []"
    "sf_qlog f = q"
    using assms by (auto simp: newFlow_ok [OF f])
qed

end

section \<open>Properties\<close>

text \<open>\<open>Close\<close> of a send flow closes every stream of the flow exactly once, in order and whatever
  the others return, runs the callback, and reports an error exactly if one of the streams did;
  afterwards writing and opening streams fail with \<open>errClosed\<close> and touch nothing.\<close>

lemma send_flow_close:
  "\<exists>e f'. SendFlow_Close deref ce onClose f st =
      (e, f', onClose st, map (\<lambda>ref. StreamClose (rss_stream (deref ref))) (sf_streams f)) \<and>
    (e \<noteq> None \<longleftrightarrow> (\<exists>ref \<in> set (sf_streams f). ce (rss_stream (deref ref)) \<noteq> None)) \<and>
    sf_streams f' = sf_streams f \<and>
    SendFlow_WriteRTPBytes f' packet sendErr = (Some errClosed, []) \<and>
    NewSendStream f' prio inc res ref = (Inl errClosed, f', [])"
proof -
  let ?errs = "map (\<lambda>ref. ce (rss_stream (deref ref))) (sf_streams f)"
  have "errors_Join ?errs \<noteq> None \<longleftrightarrow> (\<exists>ref \<in> set (sf_streams f). ce (rss_stream (deref ref)) \<noteq> None)"
    by (simp only: errors_Join_None_iff) simp
  then show ?thesis
    by (simp add: SendFlow_Close_eq SendFlow_WriteRTPBytes_def NewSendStream_def sf_isClosed_def)
qed

text \<open>Creating a flow panics exactly for IDs beyond 62 bits, because the ID is encoded at once;
  the session does not turn such an ID into an error.\<close>

lemma new_flow_panics_iff:
  assumes "quicvarint V"
  shows "(\<exists>m. newFlow V i q lg = Panic m) \<longleftrightarrow> \<not> fits62 i"
  using quicvarint.newFlow_ok [OF assms, of i q lg] quicvarint.newFlow_panics [OF assms, of i q lg]
  by (cases "fits62 i") auto

end
