(* ===== verification/Sync_Map.thy ===== *)
theory Sync_Map
  imports Roq_Prelude
begin

text \<open>
  \<open>sync_map.go\<close>: a map behind a mutex. Every method but \<open>rangeFn\<close> holds the lock from start to end,
  so it is one step on the elements; \<open>rangeFn\<close> takes a snapshot and calls its argument on every
  element of it, outside the lock. The elements are an association list with distinct keys; its
  order is the order in which the runtime iterates, about which nothing is assumed. The locale
  \<open>keyed_store\<close> is what the session relies on.
\<close>

record ('k, 'v) syncMap =
  elements :: "('k \<times> 'v) list"

definition newSyncMap :: "('k, 'v) syncMap" where
  "newSyncMap = \<lparr>elements = []\<rparr>"

definition sm_get :: "('k, 'v) syncMap \<Rightarrow> 'k \<Rightarrow> 'v option" where
  "sm_get m k = map_of (elements m) k"

definition sm_set :: "'k \<Rightarrow> 'v \<Rightarrow> ('k, 'v) syncMap \<Rightarrow> ('k, 'v) syncMap" where
  "sm_set k v m = m\<lparr>elements := AList.update k v (elements m)\<rparr>"

definition sm_delete :: "'k \<Rightarrow> ('k, 'v) syncMap \<Rightarrow> ('k, 'v) syncMap" where
  "sm_delete k m = m\<lparr>elements := AList.delete k (elements m)\<rparr>"

definition getOrInsert :: "'k \<Rightarrow> 'v \<Rightarrow> ('k, 'v) syncMap \<Rightarrow> ('v \<times> bool) \<times> ('k, 'v) syncMap" where
  "getOrInsert k v m =
     (case sm_get m k of
        Some old \<Rightarrow> ((old, False), m)
      | None \<Rightarrow> ((v, True), sm_set k v m))"

text \<open>
  The argument of \<open>rangeFn\<close> acts on the state \<open>'s\<close> of the caller, which may hold the map itself; the
  elements visited are those of the snapshot.
\<close>

definition rangeFn :: "('k, 'v) syncMap \<Rightarrow> ('k \<Rightarrow> 'v \<Rightarrow> 's \<Rightarrow> 's) \<Rightarrow> 's \<Rightarrow> 's" where
  "rangeFn m f s = fold (\<lambda>(k, v). f k v) (elements m) s"

definition sm_ok :: "('k, 'v) syncMap \<Rightarrow> bool" where
  "sm_ok m \<longleftrightarrow> distinct (map fst (elements m))"

locale keyed_store =
  fixes emp :: 'm
    and lookup :: "'m \<Rightarrow> 'k \<Rightarrow> 'v option"
    and put :: "'k \<Rightarrow> 'v \<Rightarrow> 'm \<Rightarrow> 'm"
    and del :: "'k \<Rightarrow> 'm \<Rightarrow> 'm"
    and add :: "'k \<Rightarrow> 'v \<Rightarrow> 'm \<Rightarrow> ('v \<times> bool) \<times> 'm"
    and invar :: "'m \<Rightarrow> bool"
  assumes lookup_emp: "lookup emp k = None"
    and lookup_put: "invar m \<Longrightarrow> lookup (put k v m) k' = (if k' = k then Some v else lookup m k')"
    and lookup_del: "invar m \<Longrightarrow> lookup (del k m) k' = (if k' = k then None else lookup m k')"
    and add_present: "lookup m k = Some old \<Longrightarrow> add k v m = ((old, False), m)"
    and add_absent: "lookup m k = None \<Longrightarrow> add k v m = ((v, True), put k v m)"
    and invar_emp: "invar emp"
    and invar_put: "invar m \<Longrightarrow> invar (put k v m)"
    and invar_del: "invar m \<Longrightarrow> invar (del k m)"
begin

lemma add_invar: "invar m \<Longrightarrow> invar (snd (add k v m))"
  by (cases "lookup m k") (simp_all add: add_present add_absent invar_put)

text \<open>An insertion succeeds at most once per key until the key is deleted.\<close>

lemma add_twice:
  assumes "invar m" and "add k v m = ((r, True), m')"
  shows "add k w m' = ((v, False), m')"
proof (cases "lookup m k")
  case None
  then have "m' = put k v m"
    using assms(2) by (auto simp: add_absent)
  then show ?thesis
    using assms(1) by (simp add: add_present lookup_put)
next
  case (Some old)
  then show ?thesis
    using assms(2) by (simp add: add_present)
qed

lemma add_after_del: "invar m \<Longrightarrow> add k v (del k m) = ((v, True), put k v (del k m))"
  by (rule add_absent) (simp add: lookup_del)

lemma add_inserts_iff: "snd (fst (add k v m)) \<longleftrightarrow> lookup m k = None"
  by (cases "lookup m k") (simp_all add: add_present add_absent)

end

lemma sm_get_update: "sm_get (sm_set k v m) k' = (if k' = k then Some v else sm_get m k')"
  by (simp add: sm_get_def sm_set_def update_conv')

lemma sm_get_delete: "sm_get (sm_delete k m) k' = (if k' = k then None else sm_get m k')"
  by (simp add: sm_get_def sm_delete_def delete_conv')

lemma sm_get_new: "sm_get newSyncMap k = None"
  by (simp add: sm_get_def newSyncMap_def)

lemma sm_ok_ops [roq_inv]:
  "sm_ok newSyncMap" "sm_ok m \<Longrightarrow> sm_ok (sm_set k v m)" "sm_ok m \<Longrightarrow> sm_ok (sm_delete k m)"
  by (simp_all add: sm_ok_def newSyncMap_def sm_set_def sm_delete_def distinct_update distinct_delete)

interpretation sm: keyed_store newSyncMap sm_get sm_set sm_delete getOrInsert sm_ok
  by unfold_locales
    (auto simp: sm_get_update sm_get_delete sm_get_new getOrInsert_def sm_ok_ops)

lemma sm_get_in_elements: "sm_get m k = Some v \<Longrightarrow> (k, v) \<in> set (elements m)"
  by (simp add: sm_get_def map_of_SomeD)

lemma sm_get_iff_elements: "sm_ok m \<Longrightarrow> sm_get m k = Some v \<longleftrightarrow> (k, v) \<in> set (elements m)"
  by (simp add: sm_get_def sm_ok_def)

section \<open>Properties\<close>

text \<open>Of any number of insertions for one key exactly the first succeeds; the others return its
  value and leave the map alone; after a deletion the key can be inserted again, and other keys are
  not affected.\<close>

lemma insert_once:
  assumes "sm_ok m" and "getOrInsert k v m = ((r, True), m')"
  shows "getOrInsert k w m' = ((v, False), m') \<and>
    getOrInsert k w (sm_delete k m') = ((w, True), sm_set k w (sm_delete k m')) \<and>
    (\<forall>k'. k' \<noteq> k \<longrightarrow> sm_get m' k' = sm_get m k') \<and> sm_ok m'"
proof -
  have "m' = sm_set k v m"
    using assms(2) by (auto simp: getOrInsert_def split: option.splits)
  then show ?thesis
    using sm.add_twice [OF assms] assms(1)
    by (simp add: sm.add_after_del sm_get_update sm_ok_ops)
qed

end
