(* ===== verification/Receive_Flow.thy ===== *)
theory Receive_Flow
  imports Varint Qlogger
begin

text \<open>
  \<open>receive_flow.go\<close>: a receive flow queues the packets of one flow ID for the application. Packets
  live in pooled buffers: the model keeps the buffers in a store by address, so that what a queued
  address holds depends on who else writes to it. Each critical section under the flow's lock is one
  operation; the loops of \<open>readStream\<close> and \<open>Read\<close> are composed of them.
\<close>

section \<open>State\<close>

text \<open>
  The channel \<open>buffer\<close> holds buffer addresses; \<open>rf_heap\<close> is the content of each buffer, \<open>rf_pool\<close> the
  free ones, \<open>rf_fresh\<close> the next new address. A deadline channel is known by a number; \<open>rf_closedChs\<close>
  are the closed ones. The timer is known by the channel its callback captured. Of the map \<open>streams\<close>
  only the keys are kept: a key is the ID of the stream it maps to.
\<close>

record ReceiveFlow =
  rf_id :: u64
  rf_buffer :: "nat chan"
  rf_heap :: "nat \<Rightarrow> byte list"
  rf_pool :: "nat list"
  rf_fresh :: nat
  rf_ctxDone :: bool
  rf_streams :: "int list"
  rf_closed :: bool
  rf_deadlineCh :: nat
  rf_deadlineExpired :: bool
  rf_deadlineTimer :: "nat option"
  rf_closedChs :: "nat list"
  rf_freshCh :: nat
  rf_qlog :: "qlogger option"
  rf_logger :: logger

definition maxPacketBufferSize :: nat where
  "maxPacketBufferSize = 65535"

text \<open>\<open>newReceiveFlow\<close>; a nil logger is replaced, a negative channel size panics.\<close>

definition newReceiveFlow ::
  "u64 \<Rightarrow> int \<Rightarrow> qlogger option \<Rightarrow> logger option \<Rightarrow> ReceiveFlow outcome" where
  "newReceiveFlow i bufSize q lg =
     (if bufSize < 0 then Panic ''makechan: size out of range''
      else Done
        \<lparr>rf_id = i, rf_buffer = chan_make (nat bufSize), rf_heap = (\<lambda>_. []), rf_pool = [],
         rf_fresh = 0, rf_ctxDone = False, rf_streams = [], rf_closed = False,
         rf_deadlineCh = 0, rf_deadlineExpired = False, rf_deadlineTimer = None,
         rf_closedChs = [], rf_freshCh = 1, rf_qlog = q,
         rf_logger = (case lg of None \<Rightarrow> discardLogger | Some l \<Rightarrow> l)\<rparr>)"

section \<open>Pooled buffers\<close>

text \<open>
  \<open>sync.Pool\<close>: \<open>Get\<close> returns some free buffer or a new one; which, is up to the runtime, the
  parameter \<open>pick\<close>, which sees the free buffers.
\<close>

type_synonym pool_pick = "nat list \<Rightarrow> nat option"

definition pool_Get :: "pool_pick \<Rightarrow> ReceiveFlow \<Rightarrow> nat \<times> ReceiveFlow" where
  "pool_Get pick f =
     (case pick (rf_pool f) of
        Some p \<Rightarrow>
          if p \<in> set (rf_pool f) then (p, f\<lparr>rf_pool := remove1 p (rf_pool f)\<rparr>)
          else (rf_fresh f, f\<lparr>rf_heap := (rf_heap f)(rf_fresh f := []), rf_fresh := Suc (rf_fresh f)\<rparr>)
      | None \<Rightarrow>
          (rf_fresh f, f\<lparr>rf_heap := (rf_heap f)(rf_fresh f := []), rf_fresh := Suc (rf_fresh f)\<rparr>))"

definition pool_Put :: "nat \<Rightarrow> ReceiveFlow \<Rightarrow> ReceiveFlow" where
  "pool_Put p f = f\<lparr>rf_pool := p # rf_pool f\<rparr>"

text \<open>The methods of \<open>bytes.Buffer\<close> the flow uses, on the unread content of a buffer.\<close>

definition buf_Reset :: "nat \<Rightarrow> ReceiveFlow \<Rightarrow> ReceiveFlow" where
  "buf_Reset p f = f\<lparr>rf_heap := (rf_heap f)(p := [])\<rparr>"

definition buf_Write :: "nat \<Rightarrow> byte list \<Rightarrow> ReceiveFlow \<Rightarrow> ReceiveFlow" where
  "buf_Write p bs f = f\<lparr>rf_heap := (rf_heap f)(p := rf_heap f p @ bs)\<rparr>"

definition buf_Next :: "nat \<Rightarrow> nat \<Rightarrow> ReceiveFlow \<Rightarrow> ReceiveFlow" where
  "buf_Next p n f = f\<lparr>rf_heap := (rf_heap f)(p := drop n (rf_heap f p))\<rparr>"

section \<open>Receiving packets\<close>

definition push :: "nat \<Rightarrow> ReceiveFlow \<Rightarrow> ReceiveFlow outcome" where
  "push packet f =
     (if rf_closed f then Done (pool_Put packet f)
      else bind_outcome (chan_try_send (rf_buffer f) packet) (\<lambda>(sent, ch).
             if sent then Done (f\<lparr>rf_buffer := ch\<rparr>) else Done (pool_Put packet f)))"

text \<open>The last steps of \<open>Session.HandleDatagram\<close>: a payload goes through a pooled buffer into the queue.\<close>

definition deliver :: "pool_pick \<Rightarrow> byte list \<Rightarrow> ReceiveFlow \<Rightarrow> ReceiveFlow outcome" where
  "deliver pick payload f =
     (case pool_Get pick f of (b, f1) \<Rightarrow> push b (buf_Write b payload (buf_Reset b f1)))"

text \<open>
  \<open>readVarint\<close>: the value and the bytes it was encoded in. The first byte says how many follow; a
  single-byte varint is parsed without a further read.
\<close>

definition readVarint ::
  "varint_lib \<Rightarrow> ReceiveStream \<Rightarrow> (goerror + (u64 \<times> byte list)) \<times> ReceiveStream" where
  "readVarint V r =
     (case ReadByte r of
        (Inl e, r1) \<Rightarrow> (Inl e, r1)
      | (Inr firstByte, r1) \<Rightarrow>
          (let n = varint_size firstByte;
               (rest, r2) = (if 1 < n then io_ReadFull r1 (n - 1) else (Inr [], r1))
           in case rest of
                Inl e \<Rightarrow> (Inl e, r2)
              | Inr bs \<Rightarrow>
                  (case vi_Parse V (firstByte # bs) of
                     Inl e \<Rightarrow> (Inl e, r2)
                   | Inr (v, _) \<Rightarrow> (Inr (v, firstByte # bs), r2))))"

text \<open>The log record of a failed read, at a debug level for stream errors and as a warning otherwise.\<close>

definition log_stream_error ::
  "ReceiveFlow \<Rightarrow> ReceiveStream \<Rightarrow> string \<Rightarrow> attr list \<Rightarrow> goerror \<Rightarrow> effect list" where
  "log_stream_error f r what extra e =
     (let as = [AttrUint ''flowID'' (rf_id f), AttrInt ''streamID'' (rs_ID r)] @ extra in
      case errors_As_StreamError e of
        Some c \<Rightarrow> slog (rf_logger f) Debug (''got stream error while reading '' @ what)
                    (as @ [AttrErr ''error'' (quic_StreamError c)])
      | None \<Rightarrow> slog (rf_logger f) Warn (''got unexpected error while reading '' @ what)
                  (as @ [AttrErr ''error'' e]))"

text \<open>
  One round of the loop of \<open>readStream\<close>: read a length, read that many bytes into a pooled buffer
  behind their prefix, log the event, drop the prefix, push. The flag says whether the loop goes on.
\<close>

definition readStream_iter ::
  "varint_lib \<Rightarrow> pool_pick \<Rightarrow> ReceiveFlow \<Rightarrow> ReceiveStream \<Rightarrow>
     (bool \<times> ReceiveFlow \<times> ReceiveStream \<times> effect list) outcome" where
  "readStream_iter V pick f r =
     (case readVarint V r of
        (Inl e, r1) \<Rightarrow>
          Done (False, f, r1,
                if errors_Is e io_EOF then [] else log_stream_error f r ''length'' [] e)
      | (Inr (len, encodedLength), r1) \<Rightarrow>
          (let (b, f1) = pool_Get pick f;
               f2 = buf_Write b encodedLength (buf_Reset b f1);
               (got, err, r2) = ReadFrom_Limit r1 (sint len);
               f3 = buf_Write b got f2
           in case err of
                Some e \<Rightarrow>
                  Done (False, f3, r2,
                        log_stream_error f r ''payload'' [AttrInt ''read'' (int (length got))] e)
              | None \<Rightarrow>
                  (let ev = qlog_if (rf_qlog f) (\<lambda>q.
                              StreamPacketParsed (word_of_int (rs_ID r))
                                (wire_packet q (rf_id f) (rf_heap f3 b) len));
                       f4 = buf_Next b (length encodedLength) f3
                   in bind_outcome (push b f4) (\<lambda>f5. Done (True, f5, r2, ev)))))"

lemma readVarint_consumes:
  "readVarint V r = (Inr x, r1) \<Longrightarrow> length (rs_data r1) < length (rs_data r)"
  by (auto simp: readVarint_def roq_defs Let_def split: list.splits sum.splits prod.splits if_splits)

lemma ReadFrom_Limit_length:
  "ReadFrom_Limit r n = (got, e, r') \<Longrightarrow> length (rs_data r') \<le> length (rs_data r)"
  by (auto simp: ReadFrom_Limit_def Let_def split: if_splits)

lemma readStream_iter_consumes:
  assumes "readStream_iter V pick f r = Done (True, f', r', es)"
  shows "length (rs_data r') < length (rs_data r)"
proof -
  obtain x r1 where v: "readVarint V r = (x, r1)"
    by (cases "readVarint V r")
  show ?thesis
  proof (cases x)
    case (Inl e)
    with assms v show ?thesis by (simp add: readStream_iter_def)
  next
    case (Inr y)
    obtain len bs where y: "y = (len, bs)"
      by (cases y)
    obtain got e r2 where rf: "ReadFrom_Limit r1 (sint len) = (got, e, r2)"
      by (cases "ReadFrom_Limit r1 (sint len)") auto
    have "length (rs_data r1) < length (rs_data r)"
      using v Inr by (auto intro: readVarint_consumes)
    moreover have "length (rs_data r2) \<le> length (rs_data r1)"
      using rf by (rule ReadFrom_Limit_length)
    moreover have "r' = r2"
      using assms v Inr y rf
      by (auto simp: readStream_iter_def Let_def bind_outcome_Done_iff split: prod.splits option.splits)
    ultimately show ?thesis by simp
  qed
qed

text \<open>The loop ends: every round but the last takes at least the length prefix off the stream.\<close>

function readStream_loop ::
  "varint_lib \<Rightarrow> pool_pick \<Rightarrow> ReceiveFlow \<Rightarrow> ReceiveStream \<Rightarrow>
     (ReceiveFlow \<times> ReceiveStream \<times> effect list) outcome" where
  "readStream_loop V pick f r =
     (case readStream_iter V pick f r of
        Panic m \<Rightarrow> Panic m
      | Done (False, f1, r1, es) \<Rightarrow> Done (f1, r1, es)
      | Done (True, f1, r1, es) \<Rightarrow>
          bind_outcome (readStream_loop V pick f1 r1) (\<lambda>(f2, r2, es2). Done (f2, r2, es @ es2)))"
  by pat_completeness auto
termination
  by (relation "measure (\<lambda>(V, pick, f, r). length (rs_data r))")
    (auto dest: readStream_iter_consumes)

declare readStream_loop.simps [simp del]

text \<open>The registration at the start of \<open>readStream\<close>, one critical section, and the deferred removal.\<close>

definition readStream_register :: "ReceiveFlow \<Rightarrow> ReceiveStream \<Rightarrow> bool \<times> ReceiveFlow \<times> effect list" where
  "readStream_register f r =
     (if rf_ctxDone f then (False, f, [CancelRead (rs_ID r) ErrRoQNoError])
      else (True, f\<lparr>rf_streams := List.insert (rs_ID r) (rf_streams f)\<rparr>, []))"

definition readStream_unregister :: "ReceiveFlow \<Rightarrow> ReceiveStream \<Rightarrow> ReceiveFlow" where
  "readStream_unregister f r = f\<lparr>rf_streams := removeAll (rs_ID r) (rf_streams f)\<rparr>"

definition readStream ::
  "varint_lib \<Rightarrow> pool_pick \<Rightarrow> ReceiveFlow \<Rightarrow> ReceiveStream \<Rightarrow>
     (ReceiveFlow \<times> ReceiveStream \<times> effect list) outcome" where
  "readStream V pick f r =
     (case readStream_register f r of
        (False, f1, es) \<Rightarrow> Done (f1, r, es)
      | (True, f1, es) \<Rightarrow>
          bind_outcome (readStream_loop V pick f1 r) (\<lambda>(f2, r2, es2).
            Done (readStream_unregister f2 r, r2, es @ es2)))"

section \<open>Reading packets\<close>

definition ctx_Err :: "ReceiveFlow \<Rightarrow> goerror option" where
  "ctx_Err f = (if rf_ctxDone f then Some context_Canceled else None)"

text \<open>
  \<open>copyPacket\<close> into a buffer of \<open>blen\<close> bytes: the count, the error, and the bytes copied to the front
  of the caller's buffer.
\<close>

type_synonym read_result = "int \<times> goerror option \<times> byte list"

definition copyPacket :: "nat \<Rightarrow> nat \<Rightarrow> ReceiveFlow \<Rightarrow> read_result \<times> ReceiveFlow" where
  "copyPacket blen packet f =
     (let content = rf_heap f packet in
      if blen < length content then ((0, Some io_ErrShortBuffer, []), pool_Put packet f)
      else ((int (length content), None, content), pool_Put packet f))"

text \<open>
  \<open>Read\<close> is a loop over two steps: take the deadline under the lock, then wait for a packet or for
  the deadline channel. A reader is at the start of the loop, waits on a channel, or has returned.
\<close>

datatype reader = RStart | RWait nat | RDone read_result

definition Read_begin :: "ReceiveFlow \<Rightarrow> reader" where
  "Read_begin f =
     (if rf_deadlineExpired f then RDone (0, Some os_ErrDeadlineExceeded, [])
      else RWait (rf_deadlineCh f))"

text \<open>The packet case of the select; \<open>None\<close> while it is not ready.\<close>

definition Read_packet :: "nat \<Rightarrow> ReceiveFlow \<Rightarrow> (read_result \<times> ReceiveFlow) option" where
  "Read_packet blen f =
     (case chan_recv (rf_buffer f) of
        (Received packet, ch) \<Rightarrow> Some (copyPacket blen packet (f\<lparr>rf_buffer := ch\<rparr>))
      | (RecvClosed, ch) \<Rightarrow> Some ((0, ctx_Err f, []), f)
      | (RecvBlock, ch) \<Rightarrow> None)"

text \<open>The deadline case of the select: ready once the channel the reader waits on is closed.\<close>

definition Read_woken :: "nat \<Rightarrow> ReceiveFlow \<Rightarrow> bool" where
  "Read_woken ch f \<longleftrightarrow> ch \<in> set (rf_closedChs f)"

text \<open>A call of \<open>Read\<close> that runs alone; \<open>None\<close> when it blocks.\<close>

definition Read :: "nat \<Rightarrow> ReceiveFlow \<Rightarrow> (read_result \<times> ReceiveFlow) option" where
  "Read blen f =
     (case Read_begin f of
        RDone res \<Rightarrow> Some (res, f)
      | _ \<Rightarrow> Read_packet blen f)"

section \<open>Deadlines\<close>

definition close_deadlineCh :: "nat \<Rightarrow> ReceiveFlow \<Rightarrow> ReceiveFlow outcome" where
  "close_deadlineCh ch f =
     (if ch \<in> set (rf_closedChs f) then Panic ''close of closed channel''
      else Done (f\<lparr>rf_closedChs := ch # rf_closedChs f\<rparr>))"

definition expireDeadline :: "nat \<Rightarrow> ReceiveFlow \<Rightarrow> ReceiveFlow outcome" where
  "expireDeadline ch f =
     (if rf_deadlineCh f \<noteq> ch \<or> rf_deadlineExpired f then Done f
      else close_deadlineCh ch (f\<lparr>rf_deadlineExpired := True\<rparr>))"

text \<open>
  \<open>SetReadDeadline\<close>: \<open>None\<close> is the zero time, \<open>Some d\<close> a deadline \<open>d\<close> from now. Stopping the timer does
  not stop a callback that already waits for the lock.
\<close>

definition SetReadDeadline :: "int option \<Rightarrow> ReceiveFlow \<Rightarrow> ReceiveFlow outcome" where
  "SetReadDeadline t f =
     bind_outcome
       (if rf_deadlineExpired f then Done (f\<lparr>rf_deadlineTimer := None\<rparr>)
        else close_deadlineCh (rf_deadlineCh f) (f\<lparr>rf_deadlineTimer := None\<rparr>))
       (\<lambda>f1. let f2 = f1\<lparr>rf_deadlineCh := rf_freshCh f1, rf_freshCh := Suc (rf_freshCh f1),
                        rf_deadlineExpired := False\<rparr>
             in case t of
                  None \<Rightarrow> Done f2
                | Some d \<Rightarrow>
                    if d \<le> 0 then expireDeadline (rf_deadlineCh f2) f2
                    else Done (f2\<lparr>rf_deadlineTimer := Some (rf_deadlineCh f2)\<rparr>))"

section \<open>Closing\<close>

definition rf_closeWithError :: "u64 \<Rightarrow> ReceiveFlow \<Rightarrow> effect list" where
  "rf_closeWithError c f = map (\<lambda>i. CancelRead i c) (rf_streams f)"

definition cancelCtx :: "ReceiveFlow \<Rightarrow> ReceiveFlow" where
  "cancelCtx f = f\<lparr>rf_ctxDone := True\<rparr>"

definition closeBuffer :: "ReceiveFlow \<Rightarrow> ReceiveFlow outcome" where
  "closeBuffer f =
     (if rf_closed f then Done f
      else bind_outcome (chan_close (rf_buffer f)) (\<lambda>ch.
             Done (f\<lparr>rf_closed := True, rf_deadlineTimer := None, rf_buffer := ch\<rparr>)))"

definition ReceiveFlow_Close :: "ReceiveFlow \<Rightarrow> (ReceiveFlow \<times> effect list) outcome" where
  "ReceiveFlow_Close f =
     bind_outcome (closeBuffer (cancelCtx f)) (\<lambda>f1. Done (f1, rf_closeWithError ErrRoQNoError f1))"

definition ReceiveFlow_ID :: "ReceiveFlow \<Rightarrow> u64" where
  "ReceiveFlow_ID f = rf_id f"

section \<open>Invariant\<close>

text \<open>
  Buffers: a buffer is in the pool, in the queue or held by a running call, in one place only; \<open>H\<close>
  are the held ones. Deadlines: exactly the replaced channels, and the current one once it expired,
  are closed. Closing: a closed flow has a cancelled context.
\<close>

definition buffers_ok :: "nat list \<Rightarrow> ReceiveFlow \<Rightarrow> bool" where
  "buffers_ok H f \<longleftrightarrow>
     distinct (rf_pool f @ ch_queue (rf_buffer f) @ H) \<and>
     (\<forall>p \<in> set (rf_pool f @ ch_queue (rf_buffer f) @ H). p < rf_fresh f) \<and>
     chan_ok (rf_buffer f) \<and> ch_closed (rf_buffer f) = rf_closed f"

definition deadline_ok :: "ReceiveFlow \<Rightarrow> bool" where
  "deadline_ok f \<longleftrightarrow>
     rf_deadlineCh f < rf_freshCh f \<and>
     set (rf_closedChs f) =
       {c. c < rf_freshCh f \<and> (c \<noteq> rf_deadlineCh f \<or> rf_deadlineExpired f)} \<and>
     rf_deadlineTimer f \<in> {None, Some (rf_deadlineCh f)}"

definition close_ok :: "ReceiveFlow \<Rightarrow> bool" where
  "close_ok f \<longleftrightarrow> (rf_closed f \<longrightarrow> rf_ctxDone f) \<and> distinct (rf_streams f)"

definition rf_ok :: "nat list \<Rightarrow> ReceiveFlow \<Rightarrow> bool" where
  "rf_ok H f \<longleftrightarrow> buffers_ok H f \<and> deadline_ok f \<and> close_ok f"

text \<open>The packets queued for the application, and the flow's capacity for them.\<close>

definition rf_packets :: "ReceiveFlow \<Rightarrow> byte list list" where
  "rf_packets f = map (rf_heap f) (ch_queue (rf_buffer f))"

definition rf_cap :: "ReceiveFlow \<Rightarrow> nat" where
  "rf_cap f = ch_cap (rf_buffer f)"

lemmas rf_ok_defs = rf_ok_def buffers_ok_def deadline_ok_def close_ok_def

lemma rf_okD:
  assumes "rf_ok H f"
  shows "buffers_ok H f" and "deadline_ok f" and "close_ok f"
  using assms by (simp_all add: rf_ok_def)

lemma rf_packets_le_cap: "rf_ok H f \<Longrightarrow> length (rf_packets f) \<le> rf_cap f"
  by (simp add: rf_ok_defs rf_packets_def rf_cap_def chan_ok_def)

lemma rf_ok_new: "newReceiveFlow i n q lg = Done f \<Longrightarrow> rf_ok [] f"
  by (auto simp: newReceiveFlow_def rf_ok_defs chan_make_def chan_ok_def split: if_splits)

lemma rf_new_fields:
  assumes "newReceiveFlow i n q lg = Done f"
  shows "rf_packets f = []" "rf_cap f = nat n" "rf_id f = i" "\<not> rf_closed f" "\<not> rf_ctxDone f"
    "rf_streams f = []" "rf_qlog f = q" "\<not> rf_deadlineExpired f"
  using assms by (auto simp: newReceiveFlow_def rf_packets_def rf_cap_def chan_make_def split: if_splits)

text \<open>
  What an operation on buffers leaves alone: everything but the pool, the store, the queue and the
  fresh address.
\<close>

definition same_but_buffers :: "ReceiveFlow \<Rightarrow> ReceiveFlow \<Rightarrow> bool" where
  "same_but_buffers f f' \<longleftrightarrow>
     rf_id f' = rf_id f \<and> rf_ctxDone f' = rf_ctxDone f \<and> rf_streams f' = rf_streams f \<and>
     rf_closed f' = rf_closed f \<and> rf_deadlineCh f' = rf_deadlineCh f \<and>
     rf_deadlineExpired f' = rf_deadlineExpired f \<and> rf_deadlineTimer f' = rf_deadlineTimer f \<and>
     rf_closedChs f' = rf_closedChs f \<and> rf_freshCh f' = rf_freshCh f \<and>
     rf_qlog f' = rf_qlog f \<and> rf_logger f' = rf_logger f"

lemma same_but_buffers_refl [simp]: "same_but_buffers f f"
  by (simp add: same_but_buffers_def)

lemma same_but_buffers_trans:
  "same_but_buffers f g \<Longrightarrow> same_but_buffers g h \<Longrightarrow> same_but_buffers f h"
  unfolding same_but_buffers_def by (elim conjE) (intro conjI; simp)

lemma same_but_buffers_fields:
  assumes "same_but_buffers f f'"
  shows "rf_id f' = rf_id f" "rf_ctxDone f' = rf_ctxDone f" "rf_streams f' = rf_streams f"
    "rf_closed f' = rf_closed f" "rf_qlog f' = rf_qlog f" "rf_logger f' = rf_logger f"
  using assms by (simp_all add: same_but_buffers_def)

lemma rf_ok_same:
  "rf_ok H f \<Longrightarrow> same_but_buffers f f' \<Longrightarrow> buffers_ok H' f' \<Longrightarrow> rf_ok H' f'"
  by (simp add: rf_ok_def same_but_buffers_def deadline_ok_def close_ok_def)

text \<open>
  Taking a buffer from the pool, writing to a held buffer and giving one back keep the queued
  packets as they are.
\<close>

lemma pool_Get_ok:
  assumes "rf_ok H f" and "pool_Get pick f = (b, f')"
  shows "rf_ok (b # H) f'" and "rf_packets f' = rf_packets f" and "rf_cap f' = rf_cap f"
    and "same_but_buffers f f'"
proof -
  have buf: "buffers_ok H f"
    using assms(1) by (rule rf_okD)
  then have fresh: "rf_fresh f \<notin> set (ch_queue (rf_buffer f))"
    by (auto simp: buffers_ok_def)
  consider (old) "b \<in> set (rf_pool f)" "f' = f\<lparr>rf_pool := remove1 b (rf_pool f)\<rparr>"
    | (new) "b = rf_fresh f"
        "f' = f\<lparr>rf_heap := (rf_heap f)(rf_fresh f := []), rf_fresh := Suc (rf_fresh f)\<rparr>"
    using assms(2) by (auto simp: pool_Get_def split: option.splits if_splits)
  then have "buffers_ok (b # H) f' \<and> rf_packets f' = rf_packets f \<and> rf_cap f' = rf_cap f \<and>
      same_but_buffers f f'"
  proof cases
    case old
    then show ?thesis
      using buf by (auto simp: buffers_ok_def rf_packets_def rf_cap_def same_but_buffers_def)
  next
    case new
    have "buffers_ok (b # H) f'"
      using buf unfolding new buffers_ok_def by (fastforce simp: less_Suc_eq)
    then show ?thesis
      using fresh new by (simp add: rf_packets_def rf_cap_def same_but_buffers_def)
  qed
  then show "rf_ok (b # H) f'" and "rf_packets f' = rf_packets f" and "rf_cap f' = rf_cap f"
    and "same_but_buffers f f'"
    using rf_ok_same [OF assms(1)] by simp_all
qed

lemma pool_Put_ok [roq_inv]:
  assumes "rf_ok (b # H) f"
  shows "rf_ok H (pool_Put b f)"
  using assms by (auto simp: pool_Put_def rf_ok_defs)

lemma rf_heap_write_ok:
  assumes "rf_ok (b # H) f"
  shows "rf_ok (b # H) (f\<lparr>rf_heap := (rf_heap f)(b := bs)\<rparr>)"
    and "rf_packets (f\<lparr>rf_heap := (rf_heap f)(b := bs)\<rparr>) = rf_packets f"
proof -
  have "b \<notin> set (ch_queue (rf_buffer f))"
    using assms by (auto simp: rf_ok_defs)
  then show "rf_packets (f\<lparr>rf_heap := (rf_heap f)(b := bs)\<rparr>) = rf_packets f"
    by (simp add: rf_packets_def)
  show "rf_ok (b # H) (f\<lparr>rf_heap := (rf_heap f)(b := bs)\<rparr>)"
    using assms by (simp add: rf_ok_defs)
qed

lemmas buf_defs = buf_Reset_def buf_Write_def buf_Next_def

lemma push_ok:
  assumes "rf_ok (b # H) f"
  shows "\<exists>f'. push b f = Done f' \<and> rf_ok H f' \<and> rf_cap f' = rf_cap f \<and> same_but_buffers f f' \<and>
    rf_packets f' =
      (if \<not> rf_closed f \<and> length (rf_packets f) < rf_cap f
       then rf_packets f @ [rf_heap f b] else rf_packets f)"
proof (cases "\<not> rf_closed f \<and> length (rf_packets f) < rf_cap f")
  case True
  then show ?thesis
    using assms
    by (auto simp: push_def chan_try_send_def rf_ok_defs rf_packets_def rf_cap_def chan_ok_def
        same_but_buffers_def)
next
  case False
  then have "push b f = Done (pool_Put b f)"
    using assms by (auto simp: push_def chan_try_send_def rf_ok_defs rf_packets_def rf_cap_def)
  moreover have "rf_ok H (pool_Put b f)"
    using assms by (rule roq_inv)
  ultimately show ?thesis
    using False by (auto simp: pool_Put_def rf_packets_def rf_cap_def same_but_buffers_def)
qed

section \<open>Closing a flow\<close>

text \<open>The state \<open>Close\<close> leaves behind.\<close>

definition closed_flow :: "ReceiveFlow \<Rightarrow> ReceiveFlow" where
  "closed_flow f =
     (if rf_closed f then f\<lparr>rf_ctxDone := True\<rparr>
      else f\<lparr>rf_ctxDone := True, rf_closed := True, rf_deadlineTimer := None,
             rf_buffer := (rf_buffer f)\<lparr>ch_closed := True\<rparr>\<rparr>)"

lemma ReceiveFlow_Close_eq:
  assumes "rf_ok H f"
  shows "ReceiveFlow_Close f = Done (closed_flow f, rf_closeWithError ErrRoQNoError f)"
  using assms
  by (auto simp: ReceiveFlow_Close_def closeBuffer_def cancelCtx_def closed_flow_def chan_close_def
      rf_closeWithError_def rf_ok_def buffers_ok_def)

lemma closed_flow_ok [roq_inv]: "rf_ok H f \<Longrightarrow> rf_ok H (closed_flow f)"
  by (auto simp: closed_flow_def rf_ok_defs chan_ok_def)

lemma closed_flow_fields [simp]:
  "rf_closed (closed_flow f)" "rf_ctxDone (closed_flow f)" "rf_id (closed_flow f) = rf_id f"
  "rf_streams (closed_flow f) = rf_streams f" "rf_packets (closed_flow f) = rf_packets f"
  "rf_cap (closed_flow f) = rf_cap f" "closed_flow (closed_flow f) = closed_flow f"
  by (simp_all add: closed_flow_def rf_packets_def rf_cap_def)

end
