(* ===== verification/Receive_Queue.thy ===== *)
theory Receive_Queue
  imports Receive_Flow Send_Stream
begin

text \<open>
  What a receive flow promises, seen from outside: a bounded first-in first-out queue of packets
  that drops new packets when it is full or closed. The locale states the contract, the flow's
  operations on pooled buffers are shown to implement it, and \<open>readStream\<close> and \<open>Read\<close> are described
  on top of it.
\<close>

section \<open>The contract\<close>

primrec enq_all :: "('p \<Rightarrow> 'q \<Rightarrow> 'q outcome) \<Rightarrow> 'p list \<Rightarrow> 'q \<Rightarrow> 'q outcome" where
  "enq_all enq [] q = Done q"
| "enq_all enq (p # ps) q = bind_outcome (enq p q) (enq_all enq ps)"

primrec deq_n :: "('q \<Rightarrow> ('p \<times> 'q) option) \<Rightarrow> nat \<Rightarrow> 'q \<Rightarrow> ('p list \<times> 'q) option" where
  "deq_n deq 0 q = Some ([], q)"
| "deq_n deq (Suc n) q =
     (case deq q of
        None \<Rightarrow> None
      | Some (p, q1) \<Rightarrow> map_option (\<lambda>(ps, q2). (p # ps, q2)) (deq_n deq n q1))"

locale drop_tail_queue =
  fixes enq :: "'p \<Rightarrow> 'q \<Rightarrow> 'q outcome"
    and packets :: "'q \<Rightarrow> 'p list"
    and cap :: "'q \<Rightarrow> nat"
    and is_open :: "'q \<Rightarrow> bool"
    and invar :: "'q \<Rightarrow> bool"
  assumes enq: "invar q \<Longrightarrow>
      \<exists>q'. enq p q = Done q' \<and> invar q' \<and> cap q' = cap q \<and> is_open q' = is_open q \<and>
        packets q' = (if is_open q \<and> length (packets q) < cap q then packets q @ [p] else packets q)"
    and bounded: "invar q \<Longrightarrow> length (packets q) \<le> cap q"
begin

lemma enq_all_ok:
  assumes "invar q"
  shows "\<exists>q'. enq_all enq ps q = Done q' \<and> invar q' \<and> cap q' = cap q \<and> is_open q' = is_open q \<and>
    packets q' = (if is_open q then take (cap q) (packets q @ ps) else packets q)"
  using assms
proof (induction ps arbitrary: q)
  case Nil
  then show ?case by (auto dest: bounded)
next
  case (Cons p ps)
  obtain q1 where q1: "enq p q = Done q1" "invar q1" "cap q1 = cap q" "is_open q1 = is_open q"
    "packets q1 = (if is_open q \<and> length (packets q) < cap q then packets q @ [p] else packets q)"
    using enq [OF Cons.prems, of p] by blast
  obtain q2 where "enq_all enq ps q1 = Done q2" "invar q2" "cap q2 = cap q" "is_open q2 = is_open q"
    and p2: "packets q2 = (if is_open q then take (cap q) (packets q1 @ ps) else packets q1)"
    using Cons.IH [OF q1(2)] q1(3,4) by auto
  moreover have "packets q2 = (if is_open q then take (cap q) (packets q @ p # ps) else packets q)"
    using p2 q1(5) bounded [OF Cons.prems] by (auto simp: not_less take_Cons' simp flip: append.assoc)
  ultimately show ?case
    using q1(1) by simp
qed

end

locale fifo_queue = drop_tail_queue +
  fixes deq :: "'q \<Rightarrow> ('p \<times> 'q) option"
    and fits :: "'p \<Rightarrow> bool"
  assumes deq: "invar q \<Longrightarrow> packets q = p # ps \<Longrightarrow> fits p \<Longrightarrow>
      \<exists>q'. deq q = Some (p, q') \<and> invar q' \<and> cap q' = cap q \<and> is_open q' = is_open q \<and>
        packets q' = ps"
begin

lemma drain:
  assumes "invar q" and "n \<le> length (packets q)" and "\<forall>p \<in> set (packets q). fits p"
  shows "\<exists>q'. deq_n deq n q = Some (take n (packets q), q') \<and> invar q' \<and>
    packets q' = drop n (packets q)"
  using assms
proof (induction n arbitrary: q)
  case 0
  then show ?case by simp
next
  case (Suc n)
  obtain p ps where ps: "packets q = p # ps"
    using Suc.prems(2) by (cases "packets q") auto
  obtain q1 where q1: "deq q = Some (p, q1)" "invar q1" "packets q1 = ps"
    using deq [OF Suc.prems(1) ps] Suc.prems(3) ps by auto
  then show ?case
    using Suc.IH [OF q1(2)] Suc.prems ps by auto
qed

text \<open>What is written comes out again in order, as far as the queue had room for it.\<close>

lemma enq_all_drain:
  assumes "invar q" and "is_open q" and "packets q = []" and "\<forall>p \<in> set ps. fits p"
  shows "\<exists>q1 q2. enq_all enq ps q = Done q1 \<and>
    deq_n deq (min (cap q) (length ps)) q1 = Some (take (cap q) ps, q2) \<and> packets q2 = []"
proof -
  obtain q1 where q1: "enq_all enq ps q = Done q1" "invar q1" "packets q1 = take (cap q) ps"
    using enq_all_ok [OF assms(1), of ps] assms(2,3) by auto
  have "\<forall>p \<in> set (packets q1). fits p"
    using assms(4) q1(3) by (auto dest: in_set_takeD)
  then obtain q2 where "deq_n deq (length (packets q1)) q1 = Some (packets q1, q2)"
    and "packets q2 = []"
    using drain [OF q1(2) order_refl] by auto
  then show ?thesis
    using q1(1,3) by (simp add: min.commute)
qed

end

section \<open>The flow implements it\<close>

text \<open>A flow between calls, whose deadline has not expired.\<close>

definition rf_idle :: "ReceiveFlow \<Rightarrow> bool" where
  "rf_idle f \<longleftrightarrow> rf_ok [] f \<and> \<not> rf_deadlineExpired f"

definition rf_open :: "ReceiveFlow \<Rightarrow> bool" where
  "rf_open f \<longleftrightarrow> \<not> rf_closed f"

text \<open>A successful \<open>Read\<close> into a buffer of \<open>blen\<close> bytes.\<close>

definition read_ok :: "nat \<Rightarrow> ReceiveFlow \<Rightarrow> (byte list \<times> ReceiveFlow) option" where
  "read_ok blen f =
     (case Read blen f of Some ((n, None, bs), f') \<Rightarrow> Some (bs, f') | _ \<Rightarrow> None)"

lemma deliver_ok:
  assumes "rf_ok H f"
  shows "\<exists>f'. deliver pick payload f = Done f' \<and> rf_ok H f' \<and> rf_cap f' = rf_cap f \<and>
    same_but_buffers f f' \<and>
    rf_packets f' =
      (if \<not> rf_closed f \<and> length (rf_packets f) < rf_cap f
       then rf_packets f @ [payload] else rf_packets f)"
proof -
  obtain b f1 where g: "pool_Get pick f = (b, f1)"
    by (cases "pool_Get pick f")
  note get = pool_Get_ok [OF assms g]
  define f2 where "f2 = f1\<lparr>rf_heap := (rf_heap f1)(b := payload)\<rparr>"
  have f2: "buf_Write b payload (buf_Reset b f1) = f2"
    by (simp add: buf_defs f2_def)
  have ok2: "rf_ok (b # H) f2" and p2: "rf_packets f2 = rf_packets f1"
    using rf_heap_write_ok [OF get(1)] by (simp_all add: f2_def)
  have "same_but_buffers f1 f2"
    by (simp add: f2_def same_but_buffers_def)
  with get(4) have same: "same_but_buffers f f2"
    by (rule same_but_buffers_trans)
  have "rf_cap f2 = rf_cap f" "rf_heap f2 b = payload" "rf_closed f2 = rf_closed f"
    using get(3) same_but_buffers_fields [OF same] by (simp_all add: f2_def rf_cap_def)
  moreover obtain f' where "push b f2 = Done f'" "rf_ok H f'" "rf_cap f' = rf_cap f2"
    "same_but_buffers f2 f'"
    "rf_packets f' =
      (if \<not> rf_closed f2 \<and> length (rf_packets f2) < rf_cap f2
       then rf_packets f2 @ [rf_heap f2 b] else rf_packets f2)"
    using push_ok [OF ok2] by blast
  ultimately show ?thesis
    using same_but_buffers_trans [OF same] p2 get(2) by (simp add: deliver_def g f2)
qed

lemma Read_expired:
  "rf_deadlineExpired f \<Longrightarrow> Read blen f = Some ((0, Some os_ErrDeadlineExceeded, []), f)"
  by (simp add: Read_def Read_begin_def)

text \<open>\<open>Read\<close> with a packet queued: it leaves the queue, and is copied if the buffer is long enough.\<close>

lemma Read_queued:
  assumes "rf_idle f" and "rf_packets f = p # ps"
  shows "\<exists>f'. Read blen f =
      Some (if blen < length p then (0, Some io_ErrShortBuffer, []) else (int (length p), None, p), f')
    \<and> rf_idle f' \<and> rf_packets f' = ps \<and> rf_cap f' = rf_cap f \<and> same_but_buffers f f'"
proof -
  obtain b bs where q: "ch_queue (rf_buffer f) = b # bs" and p: "rf_heap f b = p"
    and ps: "map (rf_heap f) bs = ps"
    using assms(2) by (auto simp: rf_packets_def)
  define f' where "f' = pool_Put b (f\<lparr>rf_buffer := (rf_buffer f)\<lparr>ch_queue := bs\<rparr>\<rparr>)"
  have same: "same_but_buffers f f'"
    by (simp add: f'_def pool_Put_def same_but_buffers_def)
  have "buffers_ok [] f'"
    using assms(1) q by (auto simp: f'_def pool_Put_def rf_idle_def rf_ok_def buffers_ok_def chan_ok_def)
  then have "rf_idle f'"
    using assms(1) rf_ok_same [OF _ same] same by (auto simp: rf_idle_def same_but_buffers_def)
  moreover have "rf_packets f' = ps" and "rf_cap f' = rf_cap f"
    by (simp_all add: f'_def pool_Put_def rf_packets_def rf_cap_def ps)
  moreover have "Read blen f =
      Some (if blen < length p then (0, Some io_ErrShortBuffer, []) else (int (length p), None, p), f')"
    using assms(1)
    by (simp add: Read_def Read_begin_def Read_packet_def rf_idle_def chan_recv_def q copyPacket_def
        p f'_def Let_def)
  ultimately show ?thesis
    using same by blast
qed

text \<open>\<open>Read\<close> with an empty queue blocks on an open flow and reports the closure on a closed one.\<close>

lemma Read_empty:
  assumes "rf_idle f" and "rf_packets f = []"
  shows "Read blen f = (if rf_closed f then Some ((0, Some context_Canceled, []), f) else None)"
  using assms
  by (auto simp: Read_def Read_begin_def Read_packet_def chan_recv_def rf_idle_def rf_ok_defs
      rf_packets_def ctx_Err_def)

interpretation rq: fifo_queue "deliver pick" rf_packets rf_cap rf_open rf_idle
  "read_ok blen" "\<lambda>p. length p \<le> blen" for pick blen
proof unfold_locales
  fix q p
  assume "rf_idle q"
  then show "\<exists>q'. deliver pick p q = Done q' \<and> rf_idle q' \<and> rf_cap q' = rf_cap q \<and>
      rf_open q' = rf_open q \<and>
      rf_packets q' =
        (if rf_open q \<and> length (rf_packets q) < rf_cap q then rf_packets q @ [p] else rf_packets q)"
    using deliver_ok [of "[]" q pick p]
    by (auto simp: rf_idle_def rf_open_def same_but_buffers_def)
next
  fix q
  assume "rf_idle q"
  then show "length (rf_packets q) \<le> rf_cap q"
    by (auto simp: rf_idle_def intro: rf_packets_le_cap)
next
  fix q p ps
  assume "rf_idle q" and "rf_packets q = p # ps" and "length p \<le> blen"
  then show "\<exists>q'. read_ok blen q = Some (p, q') \<and> rf_idle q' \<and> rf_cap q' = rf_cap q \<and>
      rf_open q' = rf_open q \<and> rf_packets q' = ps"
    using Read_queued [of q p ps blen]
    by (auto simp: read_ok_def rf_open_def same_but_buffers_def)
qed

section \<open>Properties\<close>

text \<open>C17: a new flow is a bounded queue: packets delivered through pooled buffers, whatever buffers
  the pool hands out, come out of \<open>Read\<close> unchanged and in order, the first as many as the buffer size
  allows; the rest was dropped.\<close>

theorem flow_fifo:
  assumes "newReceiveFlow i n q lg = Done f" and "\<forall>p \<in> set ps. length p \<le> blen"
  shows "\<exists>f1 f2. enq_all (deliver pick) ps f = Done f1 \<and>
    deq_n (read_ok blen) (min (nat n) (length ps)) f1 = Some (take (nat n) ps, f2) \<and>
    rf_packets f2 = []"
proof -
  have "rf_idle f" "rf_open f" "rf_packets f = []" "rf_cap f = nat n"
    using rf_ok_new [OF assms(1)] rf_new_fields [OF assms(1)] by (auto simp: rf_idle_def rf_open_def)
  then show ?thesis
    using rq.enq_all_drain [of f ps blen pick] assms(2) by simp
qed

theorem flow_fifo_witness:
  "\<exists>f f1 f2. newReceiveFlow 7 2 None None = Done f \<and>
     enq_all (deliver (\<lambda>_. None)) [[1], [2, 3], [4]] f = Done f1 \<and>
     deq_n (read_ok 1500) 2 f1 = Some ([[1], [2, 3]], f2) \<and> rf_packets f2 = []"
proof -
  obtain f where f: "newReceiveFlow 7 2 None None = Done f"
    by (simp add: newReceiveFlow_def)
  have "\<forall>p \<in> set [[1], [2, 3], [4]]. length (p :: byte list) \<le> 1500"
    by simp
  from flow_fifo [OF f this, of "\<lambda>_. None"] f show ?thesis
    by (simp add: numeral_2_eq_2)
qed

text \<open>C22: \<open>Read\<close> on every branch: after the deadline it fails whatever is queued; otherwise the oldest
  packet leaves the queue and is copied whole, or is dropped with \<open>io.ErrShortBuffer\<close> if the caller's
  buffer is too short; an empty queue blocks an open flow and reports the closure of a closed one.\<close>

theorem read_branches:
  assumes "rf_ok [] f"
  shows "if rf_deadlineExpired f then Read blen f = Some ((0, Some os_ErrDeadlineExceeded, []), f)
    else case rf_packets f of
      [] \<Rightarrow> Read blen f = (if rf_closed f then Some ((0, Some context_Canceled, []), f) else None)
    | p # ps \<Rightarrow> \<exists>f'. rf_ok [] f' \<and> rf_packets f' = ps \<and>
        Read blen f = Some (if blen < length p then (0, Some io_ErrShortBuffer, [])
                            else (int (length p), None, p), f')"
proof (cases "rf_deadlineExpired f")
  case True
  then show ?thesis by (simp add: Read_expired)
next
  case False
  then have idle: "rf_idle f"
    using assms by (simp add: rf_idle_def)
  show ?thesis
  proof (cases "rf_packets f")
    case Nil
    then show ?thesis using Read_empty [OF idle] False by simp
  next
    case (Cons p ps)
    then show ?thesis using Read_queued [OF idle Cons, of blen] False by (auto simp: rf_idle_def)
  qed
qed

theorem read_branches_witness:
  "\<exists>f. newReceiveFlow 7 2 None None = Done f \<and> rf_packets f = [] \<and> Read 1500 f = None"
proof -
  obtain f where f: "newReceiveFlow 7 2 None None = Done f"
    by (simp add: newReceiveFlow_def)
  then show ?thesis
    using read_branches [OF rf_ok_new [OF f], of 1500] f rf_new_fields [OF f] by simp
qed

end
