(* ===== verification/Read_Stream.thy ===== *)
theory Read_Stream
  imports Receive_Queue
begin

text \<open>
  What \<open>readStream\<close> makes of the bytes of a stream: the reference \<open>stream_packets\<close> cuts a byte sequence
  into length-prefixed packets, and the loop over pooled buffers is shown to queue exactly those, for
  every byte sequence and every way the stream can end.
\<close>

section \<open>The reference\<close>

text \<open>
  The packets in a byte sequence. The last frame may be cut off: its bytes count as a packet if the
  stream ended with \<open>io.EOF\<close>, and are discarded if it failed.
\<close>

function stream_packets :: "varint_lib \<Rightarrow> bool \<Rightarrow> byte list \<Rightarrow> byte list list" where
  "stream_packets V eof bs =
     (case vi_Parse V bs of
        Inl e \<Rightarrow> []
      | Inr (v, n) \<Rightarrow>
          if n = 0 \<or> bs = [] then []
          else if length (drop n bs) < unat v \<and> \<not> eof then []
          else take (unat v) (drop n bs) # stream_packets V eof (drop (unat v) (drop n bs)))"
  by pat_completeness auto
termination
  by (relation "measure (\<lambda>(V, eof, bs). length bs)") auto

declare stream_packets.simps [simp del]

lemma stream_packets_fail: "vi_Parse V bs = Inl e \<Longrightarrow> stream_packets V eof bs = []"
  by (subst stream_packets.simps) simp

lemma stream_packets_cut:
  "vi_Parse V bs = Inr (v, n) \<Longrightarrow> length (drop n bs) < unat v \<Longrightarrow> stream_packets V False bs = []"
  by (subst stream_packets.simps) simp

lemma stream_packets_frame:
  assumes "vi_Parse V bs = Inr (v, n)" and "0 < n" and "n \<le> length bs"
    and "unat v \<le> length (drop n bs) \<or> eof"
  shows "stream_packets V eof bs =
    take (unat v) (drop n bs) # stream_packets V eof (drop (unat v) (drop n bs))"
  using assms by (subst stream_packets.simps) auto

text \<open>The effect of queueing packets on a flow.\<close>

definition queues :: "ReceiveFlow \<Rightarrow> byte list list \<Rightarrow> ReceiveFlow \<Rightarrow> bool" where
  "queues f ps f' \<longleftrightarrow>
     rf_ok [] f' \<and> rf_cap f' = rf_cap f \<and> same_but_buffers f f' \<and>
     rf_packets f' = (if rf_closed f then rf_packets f else take (rf_cap f) (rf_packets f @ ps))"

lemma queues_Nil: "rf_ok [] f \<Longrightarrow> queues f [] f"
  by (simp add: queues_def rf_packets_le_cap)

lemma queues_trans:
  assumes "queues f ps g" and "queues g qs h"
  shows "queues f (ps @ qs) h"
proof -
  have "same_but_buffers f h" and "rf_closed g = rf_closed f"
    using assms same_but_buffers_trans by (auto simp: queues_def dest: same_but_buffers_fields(4))
  moreover have "take (rf_cap f) (take (rf_cap f) (rf_packets f @ ps) @ qs)
      = take (rf_cap f) (rf_packets f @ ps @ qs)"
    by (simp only: take_take_append append.assoc)
  ultimately show ?thesis
    using assms by (simp add: queues_def del: take_append)
qed

lemma deliver_queues: "rf_ok [] f \<Longrightarrow> \<exists>f'. deliver pick p f = Done f' \<and> queues f [p] f'"
  using deliver_ok [of "[]" f pick p] rf_packets_le_cap [of "[]" f]
  by (auto simp: queues_def take_Cons')

text \<open>The conversion \<open>int64(length)\<close> of an encodable length does not wrap.\<close>

lemma sint_fits62:
  assumes "fits62 v"
  shows "sint v = int (unat v)"
proof -
  have "int (unat v) < int (2 ^ 62)"
    using assms unfolding fits62_def of_nat_less_iff .
  then have "uint v < 2 ^ 63"
    by simp
  then have "signed_take_bit 63 (uint v) = uint v"
    by (intro signed_take_bit_int_eq_self) (auto intro: order_trans [OF _ uint_ge_0])
  then show ?thesis
    by (simp add: sint_uint)
qed

context quicvarint
begin

section \<open>Reading a length\<close>

lemma readVarint_ok:
  assumes "vi_Parse V (rs_data r) = Inr (v, n)"
  shows "readVarint V r = (Inr (v, take n (rs_data r)), r\<lparr>rs_data := drop n (rs_data r)\<rparr>)"
proof -
  note c = Parse_Inr_iff [OF assms]
  obtain b xs where d: "rs_data r = b # xs"
    using c by (cases "rs_data r") (auto simp: varint_complete_def)
  obtain m where m: "varint_size b = Suc m"
    using varint_size_pos [of b] by (cases "varint_size b") auto
  have n: "n = Suc m" and len: "m \<le> length xs"
    using c by (simp_all add: d m varint_complete_def)
  have "vi_Parse V (b # take m xs) = Inr (v, n)"
    using Parse_prefix [OF assms, of "[]"] by (simp add: d n)
  then show ?thesis
    using len by (cases m) (simp_all add: readVarint_def reader_defs d m n)
qed

lemma readVarint_fail:
  assumes "vi_Parse V (rs_data r) = Inl e"
  shows "\<exists>e' r'. readVarint V r = (Inl e', r')"
proof (cases "rs_data r")
  case Nil
  then show ?thesis by (simp add: readVarint_def ReadByte_def)
next
  case (Cons b xs)
  have "\<not> varint_complete (rs_data r)"
    using assms Parse_complete by fastforce
  then have "length xs < varint_size b - 1" and "1 < varint_size b"
    using Cons by (auto simp: varint_complete_def not_le)
  then show ?thesis
    using Cons by (simp add: readVarint_def reader_defs Let_def)
qed

section \<open>One frame\<close>

lemma readStream_iter_fail:
  assumes "vi_Parse V (rs_data r) = Inl e"
  shows "\<exists>r' es. readStream_iter V pick f r = Done (False, f, r', es)"
  using readVarint_fail [OF assms] by (auto simp: readStream_iter_def)

text \<open>A frame that is complete, or cut off by the end of the stream, is delivered.\<close>

lemma readStream_iter_frame:
  assumes "vi_Parse V (rs_data r) = Inr (v, n)" and rest: "rest = drop n (rs_data r)"
    and "unat v \<le> length rest \<or> rs_end r = io_EOF"
  shows "readStream_iter V pick f r =
    bind_outcome (deliver pick (take (unat v) rest) f) (\<lambda>f'.
      Done (True, f', r\<lparr>rs_data := drop (unat v) rest\<rparr>,
        qlog_if (rf_qlog f) (\<lambda>q. StreamPacketParsed (word_of_int (rs_ID r))
          (wire_packet q (rf_id f) (take n (rs_data r) @ take (unat v) rest) v))))"
proof -
  have "fits62 v" and n: "n \<le> length (rs_data r)"
    using Parse_Inr_bounds [OF assms(1)] by simp_all
  obtain b f1 where g: "pool_Get pick f = (b, f1)"
    by (cases "pool_Get pick f")
  have "ReadFrom_Limit (r\<lparr>rs_data := rest\<rparr>) (sint v)
      = (take (unat v) rest, None, r\<lparr>rs_data := drop (unat v) rest\<rparr>)"
    using assms(3) sint_fits62 [OF \<open>fits62 v\<close>] by (auto simp: ReadFrom_Limit_def Let_def)
  then show ?thesis
    using readVarint_ok [OF assms(1)] n
    by (simp add: readStream_iter_def deliver_def g buf_defs rest [symmetric])
qed

text \<open>A frame cut off by a failure is not; its buffer is left to the garbage collector.\<close>

lemma rf_ok_forget: "rf_ok (b # H) f \<Longrightarrow> rf_ok H f"
  by (simp add: rf_ok_def buffers_ok_def)

lemma readStream_iter_cut:
  assumes "vi_Parse V (rs_data r) = Inr (v, n)" and rest: "rest = drop n (rs_data r)"
    and "length rest < unat v" and "rs_end r \<noteq> io_EOF" and "rf_ok [] f"
  shows "\<exists>f' r' es. readStream_iter V pick f r = Done (False, f', r', es) \<and>
    queues f [] f'"
proof -
  have "fits62 v"
    using Parse_Inr_bounds [OF assms(1)] by simp
  obtain b f1 where g: "pool_Get pick f = (b, f1)"
    by (cases "pool_Get pick f")
  note get = pool_Get_ok [OF assms(5) g]
  define f3 where "f3 = f1\<lparr>rf_heap := (rf_heap f1)(b := take n (rs_data r) @ rest)\<rparr>"
  have "ReadFrom_Limit (r\<lparr>rs_data := rest\<rparr>) (sint v) = (rest, Some (rs_end r), r\<lparr>rs_data := []\<rparr>)"
    using assms(3,4) sint_fits62 [OF \<open>fits62 v\<close>] by (simp add: ReadFrom_Limit_def Let_def)
  then have "\<exists>r' es. readStream_iter V pick f r = Done (False, f3, r', es)"
    using readVarint_ok [OF assms(1)]
    by (simp add: readStream_iter_def g buf_defs f3_def rest [symmetric])
  moreover have "rf_ok [] f3" and "rf_packets f3 = rf_packets f"
    using rf_heap_write_ok [OF get(1)] get(2) by (auto simp: f3_def intro: rf_ok_forget)
  moreover have "same_but_buffers f f3" and "rf_cap f3 = rf_cap f"
    using get(3,4) by (simp_all add: f3_def same_but_buffers_def rf_cap_def)
  ultimately show ?thesis
    using rf_packets_le_cap [OF assms(5)] by (auto simp: queues_def)
qed

section \<open>The whole stream\<close>

lemma readStream_loop_packets:
  assumes "rf_ok [] f" and "bs = rs_data r"
  shows "\<exists>f' r' es. readStream_loop V pick f r = Done (f', r', es) \<and>
    queues f (stream_packets V (rs_end r = io_EOF) bs) f'"
  using assms
proof (induction bs arbitrary: f r rule: length_induct)
  case (1 bs)
  note ok = "1.prems"(1) and bs = "1.prems"(2)
  consider (fail) e where "vi_Parse V bs = Inl e"
    | (frame) v n where "vi_Parse V bs = Inr (v, n)"
        "unat v \<le> length (drop n bs) \<or> rs_end r = io_EOF"
    | (cut) v n where "vi_Parse V bs = Inr (v, n)" "length (drop n bs) < unat v" "rs_end r \<noteq> io_EOF"
    by (cases "vi_Parse V bs") (force simp: not_le)+
  then show ?case
  proof cases
    case fail
    then obtain r' es where "readStream_iter V pick f r = Done (False, f, r', es)"
      using readStream_iter_fail bs by blast
    then show ?thesis
      using queues_Nil [OF ok] fail
      by (simp add: readStream_loop.simps [of V pick f r] stream_packets_fail)
  next
    case cut
    then obtain f' r' es where "readStream_iter V pick f r = Done (False, f', r', es)" "queues f [] f'"
      using readStream_iter_cut [OF cut(1) [unfolded bs] refl _ cut(3) ok] bs by blast
    then show ?thesis
      using cut by (simp add: readStream_loop.simps [of V pick f r] stream_packets_cut)
  next
    case frame
    note b = Parse_Inr_bounds [OF frame(1)]
    define r1 where "r1 = r\<lparr>rs_data := drop (unat v) (drop n bs)\<rparr>"
    obtain f1 where f1: "deliver pick (take (unat v) (drop n bs)) f = Done f1"
      "queues f [take (unat v) (drop n bs)] f1"
      using deliver_queues [OF ok] by blast
    obtain es1 where it: "readStream_iter V pick f r = Done (True, f1, r1, es1)"
      using readStream_iter_frame [OF frame(1) [unfolded bs] refl, of pick f] frame(2) f1(1)
      by (simp add: bs r1_def)
    have "length (rs_data r1) < length bs" and "rf_ok [] f1"
      using b f1(2) by (auto simp: r1_def queues_def)
    then obtain f2 r2 es2 where l: "readStream_loop V pick f1 r1 = Done (f2, r2, es2)"
      "queues f1 (stream_packets V (rs_end r1 = io_EOF) (rs_data r1)) f2"
      using "1.IH" by blast
    then show ?thesis
      using it queues_trans [OF f1(2) l(2)] stream_packets_frame [OF frame(1) b(1,2) frame(2)]
      by (simp add: readStream_loop.simps [of V pick f r] r1_def)
  qed
qed

text \<open>
  The whole call: on an open flow it returns, queues the packets of the stream as far as there is
  room, and leaves the set of registered streams as it was.
\<close>

lemma readStream_packets:
  assumes "rf_ok [] f" and "\<not> rf_ctxDone f" and "rs_ID r \<notin> set (rf_streams f)"
  shows "\<exists>f' r' es. readStream V pick f r = Done (f', r', es) \<and>
    queues f (stream_packets V (rs_end r = io_EOF) (rs_data r)) f'"
proof -
  define f1 where "f1 = f\<lparr>rf_streams := rs_ID r # rf_streams f\<rparr>"
  have reg: "readStream_register f r = (True, f1, [])"
    using assms(2,3) by (simp add: readStream_register_def f1_def)
  have "rf_ok [] f1"
    using assms(1,3) by (simp add: f1_def rf_ok_defs)
  then obtain f2 r2 es where l: "readStream_loop V pick f1 r = Done (f2, r2, es)"
    and q: "queues f1 (stream_packets V (rs_end r = io_EOF) (rs_data r)) f2"
    using readStream_loop_packets by blast
  have "removeAll (rs_ID r) (rf_streams f) = rf_streams f"
    using assms(3) by (rule removeAll_id)
  then have "queues f (stream_packets V (rs_end r = io_EOF) (rs_data r)) (readStream_unregister f2 r)"
    using q assms(1)
    by (simp add: queues_def readStream_unregister_def f1_def same_but_buffers_def rf_packets_def
        rf_cap_def rf_ok_defs)
  then show ?thesis
    using l by (simp add: readStream_def reg)
qed

lemma readStream_closed:
  "rf_ctxDone f \<Longrightarrow> readStream V pick f r = Done (f, r, [CancelRead (rs_ID r) ErrRoQNoError])"
  by (simp add: readStream_def readStream_register_def)

text \<open>Whatever the flow and the stream, the call returns and keeps the flow well-formed.\<close>

lemma readStream_ok:
  assumes "rf_ok [] f"
  shows "\<exists>f' r' es. readStream V pick f r = Done (f', r', es) \<and> rf_ok [] f' \<and>
    rf_id f' = rf_id f \<and> rf_closed f' = rf_closed f \<and> rf_ctxDone f' = rf_ctxDone f"
proof (cases "rf_ctxDone f")
  case True
  then show ?thesis
    using assms by (simp add: readStream_closed)
next
  case False
  define f1 where "f1 = f\<lparr>rf_streams := List.insert (rs_ID r) (rf_streams f)\<rparr>"
  have "rf_ok [] f1"
    using assms by (simp add: f1_def rf_ok_defs)
  then obtain f2 r2 es where l: "readStream_loop V pick f1 r = Done (f2, r2, es)"
    and q: "queues f1 (stream_packets V (rs_end r = io_EOF) (rs_data r)) f2"
    using readStream_loop_packets by blast
  then have "rf_ok [] (readStream_unregister f2 r)"
    by (simp add: queues_def readStream_unregister_def rf_ok_defs distinct_removeAll)
  then show ?thesis
    using l q False
    by (simp add: readStream_def readStream_register_def f1_def readStream_unregister_def queues_def
        same_but_buffers_def)
qed

text \<open>The frames a send stream produces are read back as the packets they carry.\<close>

lemma stream_packets_frames:
  assumes "\<forall>p \<in> set ps. packet_ok p"
  shows "stream_packets V eof (concat (map (frame V) ps)) = ps"
  using assms
proof (induction ps)
  case Nil
  obtain e where "vi_Parse V [] = Inl e"
    using Parse_incomplete [of "[]"] by (auto simp: varint_complete_def)
  then show ?case by (simp add: stream_packets_fail)
next
  case (Cons p ps)
  define e where "e = vi_enc V (word_of_nat (length p))"
  have fr: "frame V p = e @ p"
    by (simp add: frame_def e_def)
  have fits: "fits62 (word_of_nat (length p))"
    using Cons.prems by (simp add: packet_ok_fits)
  have len: "unat (word_of_nat (length p) :: u64) = length p"
    using Cons.prems by (simp add: packet_ok_def unat_of_nat)
  have "vi_Parse V (e @ p @ concat (map (frame V) ps)) = Inr (word_of_nat (length p), length e)"
    unfolding e_def by (rule Parse_enc [OF fits])
  moreover have "0 < length e"
    using enc_size(1) [OF fits] by (simp add: e_def)
  ultimately show ?case
    using Cons len stream_packets_frame [of V "e @ p @ concat (map (frame V) ps)"] fr
    by simp
qed

end

section \<open>Properties\<close>

text \<open>Reading a length from a stream returns its value together with exactly the bytes it was
  encoded in, shortest encoding or not, and leaves the rest of the stream; a stream that ends within
  the encoding gives an error.\<close>

lemma read_varint_exact:
  assumes "quicvarint V"
  shows "case vi_Parse V (rs_data r) of
      Inr (v, n) \<Rightarrow> readVarint V r = (Inr (v, take n (rs_data r)), r\<lparr>rs_data := drop n (rs_data r)\<rparr>)
    | Inl e \<Rightarrow> \<exists>e' r'. readVarint V r = (Inl e', r')"
  using quicvarint.readVarint_ok [OF assms, of r] quicvarint.readVarint_fail [OF assms, of r]
  by (auto split: sum.splits)

lemma rfc_Parse_two: "rfc_Parse [0x40, 5, 9] = Inr (5, 2)"
proof -
  have "varint_size 0x40 = 2"
    unfolding varint_size_def unat_tag_bits by simp
  then show ?thesis
    by (simp add: rfc_Parse_def be_val_def Let_def)
qed

text \<open>C9: reading a stream returns for every byte sequence and every way the stream ends, queues
  exactly the packets the reference finds in the bytes, in order and as far as there is room, and
  leaves the flow well-formed with the stream unregistered.\<close>

theorem read_stream_exact:
  assumes "quicvarint V" and "rf_ok [] f" and "\<not> rf_ctxDone f" and "rs_ID r \<notin> set (rf_streams f)"
  shows "\<exists>f' r' es. readStream V pick f r = Done (f', r', es) \<and> rf_ok [] f' \<and>
    rf_streams f' = rf_streams f \<and>
    rf_packets f' = take (rf_cap f) (rf_packets f @ stream_packets V (rs_end r = io_EOF) (rs_data r))"
proof -
  have "\<not> rf_closed f"
    using assms(2,3) by (auto simp: rf_ok_def close_ok_def)
  then show ?thesis
    using quicvarint.readStream_packets [OF assms, of pick] by (auto simp: queues_def same_but_buffers_def)
qed

theorem read_stream_exact_witness:
  "\<exists>f f' r' es. newReceiveFlow 7 2 None None = Done f \<and>
     readStream rfc9000 (\<lambda>_. None) f \<lparr>rs_ID = 3, rs_data = [2, 8, 9], rs_end = io_EOF\<rparr> = Done (f', r', es) \<and>
     rf_packets f' = take 2 (stream_packets rfc9000 True [2, 8, 9])"
proof -
  obtain f where f: "newReceiveFlow 7 2 None None = Done f"
    by (simp add: newReceiveFlow_def)
  let ?r = "\<lparr>rs_ID = 3, rs_data = [2, 8, 9], rs_end = io_EOF\<rparr>"
  have "\<not> rf_ctxDone f" and "rs_ID ?r \<notin> set (rf_streams f)"
    using rf_new_fields [OF f] by simp_all
  from read_stream_exact [OF rfc.quicvarint_axioms rf_ok_new [OF f] this, of "\<lambda>_. None"] f
  show ?thesis
    using rf_new_fields [OF f] by auto
qed

text \<open>C38: a last frame that the end of the stream cuts off is queued like a complete packet: a reader
  cannot tell a packet from the front part of one.\<close>

theorem truncated_frame_queued:
  assumes "quicvarint V" and "rf_ok [] f" and "\<not> rf_ctxDone f" and "rs_ID r \<notin> set (rf_streams f)"
    and "fits62 v" and "rs_data r = vi_enc V v @ part" and "length part < unat v" and "rs_end r = io_EOF"
    and "length (rf_packets f) < rf_cap f"
  shows "\<exists>f' r' es. readStream V pick f r = Done (f', r', es) \<and> rf_packets f' = rf_packets f @ [part]"
proof -
  have p: "vi_Parse V (rs_data r) = Inr (v, length (vi_enc V v))"
    using quicvarint.Parse_enc [OF assms(1,5)] assms(6) by simp
  note b = quicvarint.Parse_Inr_bounds [OF assms(1) p]
  obtain e where "vi_Parse V [] = Inl e"
    using quicvarint.Parse_incomplete [OF assms(1), of "[]"] by (auto simp: varint_complete_def)
  then have "stream_packets V True (rs_data r) = [part]"
    using stream_packets_frame [OF p b(1,2), of True] assms(6,7) by (simp add: stream_packets_fail)
  moreover have "\<not> rf_closed f"
    using assms(2,3) by (auto simp: rf_ok_def close_ok_def)
  ultimately show ?thesis
    using quicvarint.readStream_packets [OF assms(1-4), of pick] assms(8,9) by (auto simp: queues_def)
qed

theorem truncated_frame_queued_witness:
  "\<exists>f f' r' es. newReceiveFlow 7 2 None None = Done f \<and>
     readStream rfc9000 (\<lambda>_. None) f \<lparr>rs_ID = 3, rs_data = [5, 8, 9], rs_end = io_EOF\<rparr> = Done (f', r', es) \<and>
     rf_packets f' = [[8, 9]]"
proof -
  obtain f where f: "newReceiveFlow 7 2 None None = Done f"
    by (simp add: newReceiveFlow_def)
  let ?r = "\<lparr>rs_ID = 3, rs_data = [5, 8, 9], rs_end = io_EOF\<rparr>"
  have "\<not> rf_ctxDone f" "rs_ID ?r \<notin> set (rf_streams f)" "fits62 5"
    "rs_data ?r = vi_enc rfc9000 5 @ [8, 9]" "length [8, 9 :: byte] < unat (5 :: u64)" "rs_end ?r = io_EOF"
    "length (rf_packets f) < rf_cap f"
    using rf_new_fields [OF f] by (simp_all add: fits62_small vi_enc_small del: vi_enc_rfc9000)
  from truncated_frame_queued [OF rfc.quicvarint_axioms rf_ok_new [OF f] this, of "\<lambda>_. None"] f
  show ?thesis
    using rf_new_fields [OF f] by auto
qed

end
