(* ===== verification/Receive_Flow_Buffer.thy ===== *)
theory Receive_Flow_Buffer
  imports Receive_Flow
begin

text \<open>
  \<open>receive_flow_buffer.go\<close>: the flows of flow IDs the application has not asked for yet, the oldest
  first, bounded by \<open>maxLen\<close>. Flows are shared by reference: the buffer, the session, running
  handlers and the application may hold the same flow, so flows live in a store by reference.
\<close>

section \<open>The store of receive flows\<close>

record rfstore =
  st_flow :: "nat \<Rightarrow> ReceiveFlow option"
  st_next :: nat

definition st_empty :: rfstore where
  "st_empty = \<lparr>st_flow = (\<lambda>_. None), st_next = 0\<rparr>"

definition st_alloc :: "ReceiveFlow \<Rightarrow> rfstore \<Rightarrow> nat \<times> rfstore" where
  "st_alloc f st =
     (st_next st, st\<lparr>st_flow := (st_flow st)(st_next st \<mapsto> f), st_next := Suc (st_next st)\<rparr>)"

definition st_put :: "nat \<Rightarrow> ReceiveFlow \<Rightarrow> rfstore \<Rightarrow> rfstore" where
  "st_put r f st = st\<lparr>st_flow := (st_flow st)(r \<mapsto> f)\<rparr>"

section \<open>The buffer\<close>

record receiveFlowBuffer =
  maxLen :: int
  rfb_buffer :: "(u64 \<times> nat) list"
  rfb_queue :: "u64 list"

definition newReceiveFlowBuffer :: "int \<Rightarrow> receiveFlowBuffer" where
  "newReceiveFlowBuffer n = \<lparr>maxLen = n, rfb_buffer = [], rfb_queue = []\<rparr>"

text \<open>
  The eviction loop of \<open>getOrCreate\<close>: while the queue is too long, cancel the streams of the flow at
  its front and drop it. An empty queue has no front.
\<close>

function evict :: "rfstore \<Rightarrow> receiveFlowBuffer \<Rightarrow> (receiveFlowBuffer \<times> effect list) outcome" where
  "evict st b =
     (if maxLen b \<le> int (length (rfb_queue b)) then
        (case rfb_queue b of
           [] \<Rightarrow> Panic ''index out of range''
         | front # rest \<Rightarrow>
             (let es = (case map_of (rfb_buffer b) front of
                          Some r \<Rightarrow> (case st_flow st r of
                                       Some f \<Rightarrow> rf_closeWithError ErrRoQUnknownFlowID f
                                     | None \<Rightarrow> [])
                        | None \<Rightarrow> []);
                  b1 = b\<lparr>rfb_buffer := AList.delete front (rfb_buffer b), rfb_queue := rest\<rparr>
              in bind_outcome (evict st b1) (\<lambda>(b2, es2). Done (b2, es @ es2))))
      else Done (b, []))"
  by pat_completeness auto
termination
  by (relation "measure (\<lambda>(st, b). length (rfb_queue b))") auto

declare evict.simps [simp del]

definition getOrCreate ::
  "receiveFlowBuffer \<Rightarrow> rfstore \<Rightarrow> u64 \<Rightarrow> int \<Rightarrow> qlogger option \<Rightarrow> logger option \<Rightarrow>
     (nat \<times> receiveFlowBuffer \<times> rfstore \<times> effect list) outcome" where
  "getOrCreate b st i bufSize q lg =
     (case map_of (rfb_buffer b) i of
        Some r \<Rightarrow> Done (r, b, st, [])
      | None \<Rightarrow>
          bind_outcome (evict st b) (\<lambda>(b1, es).
          bind_outcome (newReceiveFlow i bufSize q lg) (\<lambda>f.
            let (r, st1) = st_alloc f st;
                b2 = b1\<lparr>rfb_queue := rfb_queue b1 @ [i],
                        rfb_buffer := AList.update i r (rfb_buffer b1)\<rparr>
            in Done (r, b2, st1, es))))"

definition pop :: "receiveFlowBuffer \<Rightarrow> u64 \<Rightarrow> nat option \<times> receiveFlowBuffer" where
  "pop b i =
     (let b1 = b\<lparr>rfb_queue := remove1 i (rfb_queue b)\<rparr> in
      case map_of (rfb_buffer b1) i of
        None \<Rightarrow> (None, b1)
      | Some r \<Rightarrow> (Some r, b1\<lparr>rfb_buffer := AList.delete i (rfb_buffer b1)\<rparr>))"

section \<open>Invariant\<close>

text \<open>
  The queue lists the keys of the map, each once, and is no longer than \<open>maxLen\<close>; the flows of the
  map are in the store under their own IDs.
\<close>

definition rfb_ok :: "receiveFlowBuffer \<Rightarrow> bool" where
  "rfb_ok b \<longleftrightarrow>
     0 < maxLen b \<and> int (length (rfb_queue b)) \<le> maxLen b \<and> distinct (rfb_queue b) \<and>
     distinct (map fst (rfb_buffer b)) \<and> set (rfb_queue b) = fst ` set (rfb_buffer b)"

lemma rfb_ok_new: "0 < n \<Longrightarrow> rfb_ok (newReceiveFlowBuffer n)"
  by (simp add: rfb_ok_def newReceiveFlowBuffer_def)

lemma map_of_None_queue: "rfb_ok b \<Longrightarrow> map_of (rfb_buffer b) i = None \<longleftrightarrow> i \<notin> set (rfb_queue b)"
  by (simp add: rfb_ok_def map_of_eq_None_iff)

text \<open>The streams cancelled when a flow is dropped.\<close>

definition evicted_effects :: "rfstore \<Rightarrow> receiveFlowBuffer \<Rightarrow> u64 \<Rightarrow> effect list" where
  "evicted_effects st b i =
     (case map_of (rfb_buffer b) i of
        Some r \<Rightarrow> (case st_flow st r of Some f \<Rightarrow> rf_closeWithError ErrRoQUnknownFlowID f | None \<Rightarrow> [])
      | None \<Rightarrow> [])"

lemma evict_room: "int (length (rfb_queue b)) < maxLen b \<Longrightarrow> evict st b = Done (b, [])"
  by (simp add: evict.simps [of st b])

text \<open>In a full buffer the loop runs once and drops the oldest flow.\<close>

lemma evict_full:
  assumes "rfb_ok b" and "int (length (rfb_queue b)) = maxLen b"
  obtains front rest where "rfb_queue b = front # rest"
    and "evict st b =
      Done (b\<lparr>rfb_buffer := AList.delete front (rfb_buffer b), rfb_queue := rest\<rparr>,
            evicted_effects st b front)"
proof -
  obtain front rest where q: "rfb_queue b = front # rest"
    using assms by (cases "rfb_queue b") (auto simp: rfb_ok_def)
  have "evict st (b\<lparr>rfb_buffer := AList.delete front (rfb_buffer b), rfb_queue := rest\<rparr>) =
      Done (b\<lparr>rfb_buffer := AList.delete front (rfb_buffer b), rfb_queue := rest\<rparr>, [])"
    using assms(2) q by (intro evict_room) simp
  then show thesis
    using assms(2) q that
    by (simp add: evict.simps [of st b] evicted_effects_def)
qed

text \<open>
  Eviction in general: the queue loses its front if it was full, and the map loses exactly the same
  key.
\<close>

lemma evict_ok:
  assumes "rfb_ok b"
  obtains b' es where "evict st b = Done (b', es)" and "rfb_ok b'" and "maxLen b' = maxLen b"
    and "int (length (rfb_queue b')) < maxLen b" and "set (rfb_queue b') \<subseteq> set (rfb_queue b)"
    and "\<And>i. i \<in> set (rfb_queue b') \<Longrightarrow> map_of (rfb_buffer b') i = map_of (rfb_buffer b) i"
proof (cases "int (length (rfb_queue b)) < maxLen b")
  case True
  then show thesis
    using that [of b "[]"] assms evict_room [of b st] by simp
next
  case False
  then have full: "int (length (rfb_queue b)) = maxLen b"
    using assms by (simp add: rfb_ok_def)
  obtain front rest where q: "rfb_queue b = front # rest" and e: "evict st b =
      Done (b\<lparr>rfb_buffer := AList.delete front (rfb_buffer b), rfb_queue := rest\<rparr>,
            evicted_effects st b front)"
    using evict_full [OF assms full] by metis
  define b' where "b' = b\<lparr>rfb_buffer := AList.delete front (rfb_buffer b), rfb_queue := rest\<rparr>"
  have "rfb_ok b'"
    using assms q by (auto simp: rfb_ok_def b'_def delete_fst_set distinct_delete)
  moreover have "\<And>i. i \<in> set rest \<Longrightarrow> i \<noteq> front"
    using assms q by (auto simp: rfb_ok_def)
  ultimately show thesis
    using that [of b'] e full q by (auto simp: b'_def delete_conv')
qed

lemma getOrCreate_present:
  "map_of (rfb_buffer b) i = Some r \<Longrightarrow> getOrCreate b st i n q lg = Done (r, b, st, [])"
  by (simp add: getOrCreate_def)

lemma getOrCreate_absent:
  assumes "rfb_ok b" and "map_of (rfb_buffer b) i = None" and "newReceiveFlow i n q lg = Done f"
  obtains b1 es b' where "evict st b = Done (b1, es)"
    and "getOrCreate b st i n q lg = Done (st_next st, b', snd (st_alloc f st), es)"
    and "rfb_ok b'" and "maxLen b' = maxLen b" and "rfb_queue b' = rfb_queue b1 @ [i]"
    and "map_of (rfb_buffer b') i = Some (st_next st)"
    and "\<And>j r. map_of (rfb_buffer b') j = Some r \<Longrightarrow> j \<noteq> i \<Longrightarrow> map_of (rfb_buffer b) j = Some r"
proof -
  obtain b1 es where e: "evict st b = Done (b1, es)" "rfb_ok b1" "maxLen b1 = maxLen b"
    "int (length (rfb_queue b1)) < maxLen b" "set (rfb_queue b1) \<subseteq> set (rfb_queue b)"
    "\<And>i. i \<in> set (rfb_queue b1) \<Longrightarrow> map_of (rfb_buffer b1) i = map_of (rfb_buffer b) i"
    using evict_ok [OF assms(1)] by blast
  define b' where "b' = b1\<lparr>rfb_queue := rfb_queue b1 @ [i],
    rfb_buffer := AList.update i (st_next st) (rfb_buffer b1)\<rparr>"
  have "i \<notin> set (rfb_queue b1)"
    using e(5) map_of_None_queue [OF assms(1)] assms(2) by blast
  then have "rfb_ok b'"
    using e(2,3,4) by (auto simp: rfb_ok_def b'_def update_fst_set distinct_update)
  moreover have "map_of (rfb_buffer b) j = Some r"
    if "map_of (rfb_buffer b') j = Some r" and "j \<noteq> i" for j r
  proof -
    have j: "map_of (rfb_buffer b1) j = Some r"
      using that by (simp add: b'_def update_conv')
    then have "j \<in> set (rfb_queue b1)"
      using map_of_None_queue [OF e(2), of j] by auto
    with e(6) j show ?thesis by simp
  qed
  ultimately show thesis
    using that [of b1 es b'] e(1,3) assms(2,3)
    by (simp add: getOrCreate_def st_alloc_def b'_def update_conv' Let_def)
qed

lemma pop_ok:
  assumes "rfb_ok b" and "pop b i = (res, b')"
  shows "rfb_ok b'" and "res = map_of (rfb_buffer b) i" and "maxLen b' = maxLen b"
    and "rfb_queue b' = remove1 i (rfb_queue b)"
    and "map_of (rfb_buffer b') = (map_of (rfb_buffer b))(i := None)"
proof -
  have d: "distinct (rfb_queue b)"
    using assms(1) by (simp add: rfb_ok_def)
  show "res = map_of (rfb_buffer b) i" and "maxLen b' = maxLen b"
    and "rfb_queue b' = remove1 i (rfb_queue b)"
    using assms(2) by (auto simp: pop_def Let_def split: option.splits)
  show "map_of (rfb_buffer b') = (map_of (rfb_buffer b))(i := None)"
    using assms(2) by (auto simp: pop_def Let_def delete_conv split: option.splits)
  show "rfb_ok b'"
  proof (cases "map_of (rfb_buffer b) i")
    case None
    then have "b' = b\<lparr>rfb_queue := remove1 i (rfb_queue b)\<rparr>"
      using assms(2) by (simp add: pop_def)
    moreover have "remove1 i (rfb_queue b) = rfb_queue b"
      using map_of_None_queue [OF assms(1)] None by (simp add: remove1_idem)
    ultimately show ?thesis
      using assms(1) by (simp add: rfb_ok_def)
  next
    case (Some r)
    then have "b' = b\<lparr>rfb_queue := remove1 i (rfb_queue b),
        rfb_buffer := AList.delete i (rfb_buffer b)\<rparr>"
      using assms(2) by (simp add: pop_def)
    moreover have "length (remove1 i (rfb_queue b)) \<le> length (rfb_queue b)"
      by (simp add: length_remove1)
    ultimately show ?thesis
      using assms(1) d by (auto simp: rfb_ok_def delete_fst_set distinct_delete)
  qed
qed

section \<open>Properties\<close>

text \<open>C24: a flow for an unknown ID is added to the buffer; if the buffer was full, exactly the oldest
  flow is dropped and its streams are cancelled with \<open>ErrRoQUnknownFlowID\<close>, so the buffer never holds
  more than its maximum.\<close>

theorem unknown_flow_eviction:
  assumes "rfb_ok b" and "map_of (rfb_buffer b) i = None" and "newReceiveFlow i n q lg = Done f"
  shows "\<exists>b' es. getOrCreate b st i n q lg = Done (st_next st, b', snd (st_alloc f st), es) \<and>
    rfb_ok b' \<and> maxLen b' = maxLen b \<and> int (length (rfb_queue b')) \<le> maxLen b \<and>
    map_of (rfb_buffer b') i = Some (st_next st) \<and>
    (if int (length (rfb_queue b)) < maxLen b then rfb_queue b' = rfb_queue b @ [i] \<and> es = []
     else rfb_queue b' = tl (rfb_queue b) @ [i] \<and> es = evicted_effects st b (hd (rfb_queue b)))"
proof -
  obtain b1 es b' where g: "evict st b = Done (b1, es)"
    "getOrCreate b st i n q lg = Done (st_next st, b', snd (st_alloc f st), es)"
    "rfb_ok b'" "maxLen b' = maxLen b" "rfb_queue b' = rfb_queue b1 @ [i]"
    "map_of (rfb_buffer b') i = Some (st_next st)"
    "\<And>j r. map_of (rfb_buffer b') j = Some r \<Longrightarrow> j \<noteq> i \<Longrightarrow> map_of (rfb_buffer b) j = Some r"
    by (rule getOrCreate_absent [OF assms, of st]) (rule that)
  have "if int (length (rfb_queue b)) < maxLen b then rfb_queue b1 = rfb_queue b \<and> es = []
     else rfb_queue b1 = tl (rfb_queue b) \<and> es = evicted_effects st b (hd (rfb_queue b))"
  proof (cases "int (length (rfb_queue b)) < maxLen b")
    case True
    then show ?thesis using evict_room [of b st] g(1) by simp
  next
    case False
    then have "int (length (rfb_queue b)) = maxLen b"
      using assms(1) by (simp add: rfb_ok_def)
    from evict_full [OF assms(1) this, of st] show ?thesis
      by (rule) (use g(1) False in auto)
  qed
  then show ?thesis
    using g(2-6) by (intro exI [of _ b'] exI [of _ es]) (auto simp: rfb_ok_def)
qed

theorem unknown_flow_eviction_witness:
  "\<exists>f b' es. newReceiveFlow 3 4 None None = Done f \<and>
     getOrCreate \<lparr>maxLen = 2, rfb_buffer = [(1, 0), (2, 1)], rfb_queue = [2, 1]\<rparr> (st_empty\<lparr>st_next := 2\<rparr>) 3 4 None None
       = Done (2, b', snd (st_alloc f (st_empty\<lparr>st_next := 2\<rparr>)), es) \<and> rfb_queue b' = [1, 3]"
proof -
  let ?b = "\<lparr>maxLen = 2, rfb_buffer = [(1, 0), (2, 1)], rfb_queue = [2, 1]\<rparr>"
  obtain f where f: "newReceiveFlow 3 4 None None = Done f"
    by (simp add: newReceiveFlow_def)
  have "rfb_ok ?b" and "map_of (rfb_buffer ?b) 3 = None"
    by (auto simp: rfb_ok_def)
  from unknown_flow_eviction [OF this f, of "st_empty\<lparr>st_next := 2\<rparr>"] f show ?thesis
    by auto
qed

text \<open>\<open>pop\<close> hands out the buffered flow of an ID and forgets the ID in both structures, keeping
  the order of the others: the flow cannot be evicted any more, and popping again finds nothing.\<close>

lemma pop_takes_out:
  assumes "rfb_ok b" and "pop b i = (res, b')"
  shows "rfb_ok b' \<and> res = map_of (rfb_buffer b) i \<and> i \<notin> set (rfb_queue b') \<and>
    rfb_queue b' = filter (\<lambda>j. j \<noteq> i) (rfb_queue b) \<and>
    map_of (rfb_buffer b') = (map_of (rfb_buffer b))(i := None) \<and> fst (pop b' i) = None"
proof -
  note p = pop_ok [OF assms]
  have q: "rfb_queue b' = filter (\<lambda>j. j \<noteq> i) (rfb_queue b)"
    using p(4) assms(1) by (simp add: rfb_ok_def distinct_remove1_removeAll removeAll_filter_not_eq eq_commute)
  moreover have "map_of (rfb_buffer b') i = None"
    by (simp add: p(5))
  then have "fst (pop b' i) = None"
    by (simp add: pop_def)
  ultimately show ?thesis
    using p by simp
qed

end
