(* ===== verification/Session.thy ===== *)
theory Session
  imports Send_Flow Sync_Map Read_Stream Receive_Flow_Buffer
begin

text \<open>
  \<open>session.go\<close>: the session ties the components together. It owns the maps of send and receive flows
  and the buffer of unknown flows, handles datagrams and streams, and closes everything once. The
  connection is an interface: the model keeps what the sources ask of it, and the results of its
  methods are arguments of the operations. Every operation is written in the order of the sources;
  the parts that hold a lock are definitions of their own.
\<close>

section \<open>State\<close>

text \<open>\<open>qlog.EventSchema\<close>.\<close>

definition EventSchema :: string where
  "EventSchema = ''urn:ietf:params:qlog:events:roq-01''"

text \<open>A connection, as far as a session looks at it: whether it has a qlog trace, and which.\<close>

record Connection =
  conn_QlogTrace :: "trace option option"

text \<open>Send flows and their streams, by reference.\<close>

record sendstore =
  ss_flow :: "nat \<Rightarrow> SendFlow option"
  ss_next :: nat

record Session =
  s_receiveBufferSize :: int
  s_acceptDatagrams :: bool
  s_sendFlows :: "(u64, nat) syncMap"
  s_receiveFlows :: "(u64, nat) syncMap"
  s_receiveFlowBuffer :: receiveFlowBuffer
  s_closedErr :: "goerror option"
  s_connCloseErr :: "goerror option"
  s_wg :: nat
  s_ctxDone :: bool
  s_qlog :: "qlogger option"
  s_qlogClosed :: bool
  s_logger :: logger
  s_rstore :: rfstore
  s_sstore :: sendstore

section \<open>Creating a session\<close>

definition newQlogger :: "Connection \<Rightarrow> sessionConfig \<Rightarrow> qlogger option" where
  "newQlogger conn config =
     (let trace = (case qlogTrace config of
                     Some t \<Rightarrow> Some t
                   | None \<Rightarrow> (case conn_QlogTrace conn of None \<Rightarrow> None | Some t \<Rightarrow> t))
      in case trace of
           None \<Rightarrow> None
         | Some t \<Rightarrow>
             if \<not> SupportsSchemas t EventSchema then None
             else Some \<lparr>recorder = AddProducer t, logData = qlogPacketData config,
                        dataLimit = qlogPacketDataLimit config\<rparr>)"

definition newSession :: "Connection \<Rightarrow> bool \<Rightarrow> sessionConfig \<Rightarrow> Session" where
  "newSession conn acceptDatagrams config =
     \<lparr>s_receiveBufferSize = receiveBufferSize config, s_acceptDatagrams = acceptDatagrams,
      s_sendFlows = newSyncMap, s_receiveFlows = newSyncMap,
      s_receiveFlowBuffer = newReceiveFlowBuffer (unknownFlowBufferSize config),
      s_closedErr = None, s_connCloseErr = None, s_wg = 0, s_ctxDone = False,
      s_qlog = newQlogger conn config, s_qlogClosed = False, s_logger = cfg_logger config,
      s_rstore = st_empty, s_sstore = \<lparr>ss_flow = (\<lambda>_. None), ss_next = 0\<rparr>\<rparr>"

text \<open>\<open>start\<close> runs the receive loops: the wait group counts them.\<close>

definition start :: "Session \<Rightarrow> Session" where
  "start s = s\<lparr>s_wg := s_wg s + (if s_acceptDatagrams s then 2 else 1)\<rparr>"

definition NewSessionWithAppHandledConn ::
  "Connection option \<Rightarrow> bool \<Rightarrow> roq_option option list \<Rightarrow> goerror + Session" where
  "NewSessionWithAppHandledConn conn acceptDatagrams opts =
     (case conn of
        None \<Rightarrow> Inl errNilConnection
      | Some c \<Rightarrow>
          (case newSessionConfig opts of
             Inl e \<Rightarrow> Inl e
           | Inr config \<Rightarrow> Inr (newSession c acceptDatagrams config)))"

definition NewSession ::
  "Connection option \<Rightarrow> bool \<Rightarrow> roq_option option list \<Rightarrow> goerror + Session" where
  "NewSession conn acceptDatagrams opts =
     (case conn of
        None \<Rightarrow> Inl errNilConnection
      | Some c \<Rightarrow>
          (case newSessionConfig opts of
             Inl e \<Rightarrow> Inl e
           | Inr config \<Rightarrow> Inr (start (newSession c acceptDatagrams config))))"

section \<open>Creating flows\<close>

definition isClosed :: "Session \<Rightarrow> goerror option" where
  "isClosed s = s_closedErr s"

definition ss_alloc :: "SendFlow \<Rightarrow> sendstore \<Rightarrow> nat \<times> sendstore" where
  "ss_alloc f st =
     (ss_next st, st\<lparr>ss_flow := (ss_flow st)(ss_next st \<mapsto> f), ss_next := Suc (ss_next st)\<rparr>)"

text \<open>The part of \<open>NewSendFlow\<close> behind the check; the insertion into the map is one step.\<close>

definition NewSendFlow_insert :: "varint_lib \<Rightarrow> Session \<Rightarrow> u64 \<Rightarrow> ((goerror + nat) \<times> Session) outcome" where
  "NewSendFlow_insert V s i =
     bind_outcome (newFlow V i (s_qlog s) (Some (s_logger s))) (\<lambda>f.
       let (ref, store) = ss_alloc f (s_sstore s);
           ((_, ok), m) = getOrInsert i ref (s_sendFlows s)
       in if \<not> ok then Done (Inl errDuplicateFlowID, s)
          else Done (Inr ref, s\<lparr>s_sendFlows := m, s_sstore := store\<rparr>))"

definition NewSendFlow :: "varint_lib \<Rightarrow> Session \<Rightarrow> u64 \<Rightarrow> ((goerror + nat) \<times> Session) outcome" where
  "NewSendFlow V s i =
     (case isClosed s of
        Some e \<Rightarrow> Done (Inl e, s)
      | None \<Rightarrow> NewSendFlow_insert V s i)"

text \<open>The part of \<open>NewReceiveFlow\<close> under \<open>receiveFlowsMutex\<close>.\<close>

definition NewReceiveFlow_locked :: "Session \<Rightarrow> u64 \<Rightarrow> ((goerror + nat) \<times> Session) outcome" where
  "NewReceiveFlow_locked s i =
     (case sm_get (s_receiveFlows s) i of
        Some _ \<Rightarrow> Done (Inl errDuplicateFlowID, s)
      | None \<Rightarrow>
          (case pop (s_receiveFlowBuffer s) i of
             (Some r, b) \<Rightarrow>
               Done (Inr r, s\<lparr>s_receiveFlowBuffer := b,
                             s_receiveFlows := sm_set i r (s_receiveFlows s)\<rparr>)
           | (None, b) \<Rightarrow>
               bind_outcome (newReceiveFlow i (s_receiveBufferSize s) (s_qlog s) (Some (s_logger s)))
                 (\<lambda>f. let (r, st) = st_alloc f (s_rstore s)
                       in Done (Inr r, s\<lparr>s_receiveFlowBuffer := b, s_rstore := st,
                                         s_receiveFlows := sm_set i r (s_receiveFlows s)\<rparr>))))"

definition NewReceiveFlow :: "Session \<Rightarrow> u64 \<Rightarrow> ((goerror + nat) \<times> Session) outcome" where
  "NewReceiveFlow s i =
     (case isClosed s of
        Some e \<Rightarrow> Done (Inl e, s)
      | None \<Rightarrow> NewReceiveFlow_locked s i)"

section \<open>Closing\<close>

text \<open>What closing returns on the streams and the connection.\<close>

record close_results =
  cr_stream :: "int \<Rightarrow> goerror option"
  cr_conn :: "goerror option"

text \<open>
  \<open>v.Close()\<close> on a send flow of the session, \<open>deref\<close> finding its streams; the callback \<open>NewSendFlow\<close>
  gave the flow deletes its ID from the map.
\<close>

definition close_send_flow ::
  "(nat \<Rightarrow> RTPSendStream) \<Rightarrow> (int \<Rightarrow> goerror option) \<Rightarrow> nat \<Rightarrow> Session \<Rightarrow>
     goerror option \<times> Session \<times> effect list" where
  "close_send_flow deref closeErr ref s =
     (case ss_flow (s_sstore s) ref of
        None \<Rightarrow> (None, s, [])
      | Some f \<Rightarrow>
          (case SendFlow_Close deref closeErr
                  (\<lambda>s. s\<lparr>s_sendFlows := sm_delete (sf_id f) (s_sendFlows s)\<rparr>) f s of
             (e, f', s', es) \<Rightarrow>
               (e, s'\<lparr>s_sstore := (s_sstore s')\<lparr>ss_flow := (ss_flow (s_sstore s'))(ref \<mapsto> f')\<rparr>\<rparr>, es)))"

text \<open>\<open>v.Close()\<close> on a receive flow of the session.\<close>

definition close_receive_flow :: "nat \<Rightarrow> Session \<Rightarrow> (Session \<times> effect list) outcome" where
  "close_receive_flow r s =
     (case st_flow (s_rstore s) r of
        None \<Rightarrow> Done (s, [])
      | Some f \<Rightarrow>
          bind_outcome (ReceiveFlow_Close f) (\<lambda>(f', es).
            Done (s\<lparr>s_rstore := st_put r f' (s_rstore s)\<rparr>, es)))"

text \<open>\<open>close\<close>, under the session's mutex from start to end.\<close>

definition s_close ::
  "(nat \<Rightarrow> RTPSendStream) \<Rightarrow> close_results \<Rightarrow> Session \<Rightarrow> u64 \<Rightarrow> string \<Rightarrow>
     (Session \<times> effect list) outcome" where
  "s_close deref cr s c why =
     (if s_closedErr s \<noteq> None then Done (s, [])
      else
        (let s1 = s\<lparr>s_closedErr := Some (SessionErr \<lparr>se_code = c, se_reason = why\<rparr>)\<rparr>;
             (s2, es1) = rangeFn (s_sendFlows s1)
               (\<lambda>_ ref (st, es). case close_send_flow deref (cr_stream cr) ref st of
                                   (_, st', es') \<Rightarrow> (st', es @ es')) (s1, [])
         in bind_outcome
              (rangeFn (s_receiveFlows s2)
                 (\<lambda>_ r acc. bind_outcome acc (\<lambda>(st, es).
                    bind_outcome (close_receive_flow r st) (\<lambda>(st', es'). Done (st', es @ es'))))
                 (Done (s2, es1)))
              (\<lambda>(s3, es2).
                Done (s3\<lparr>s_connCloseErr := cr_conn cr, s_ctxDone := True\<rparr>,
                      es2 @ [ConnCloseWithError c why]))))"

definition closeWithError ::
  "(nat \<Rightarrow> RTPSendStream) \<Rightarrow> close_results \<Rightarrow> Session \<Rightarrow> u64 \<Rightarrow> string \<Rightarrow>
     (Session \<times> effect list) outcome" where
  "closeWithError deref cr s c why = s_close deref cr s c why"

text \<open>\<open>Close\<close> behind \<open>s.wg.Wait()\<close>: release the qlog producer once, report the connection's error.\<close>

definition Close_finish :: "Session \<Rightarrow> goerror option \<times> Session \<times> effect list" where
  "Close_finish s =
     (case s_qlog s of
        Some q \<Rightarrow>
          if s_qlogClosed s then (s_connCloseErr s, s, [])
          else (s_connCloseErr s, s\<lparr>s_qlogClosed := True\<rparr>, qlogger_close q)
      | None \<Rightarrow> (s_connCloseErr s, s, []))"

text \<open>\<open>Close\<close>, called when the receive loops have nothing left to do.\<close>

definition Session_Close ::
  "(nat \<Rightarrow> RTPSendStream) \<Rightarrow> close_results \<Rightarrow> Session \<Rightarrow>
     (goerror option \<times> Session \<times> effect list) outcome" where
  "Session_Close deref cr s =
     bind_outcome (s_close deref cr s ErrRoQNoError '''') (\<lambda>(s1, es).
       case Close_finish s1 of (e, s2, es2) \<Rightarrow> Done (e, s2, es @ es2))"

section \<open>Receiving\<close>

text \<open>\<open>receiveFlow\<close>, under \<open>receiveFlowsMutex\<close>.\<close>

definition receiveFlow :: "Session \<Rightarrow> u64 \<Rightarrow> (nat \<times> Session \<times> effect list) outcome" where
  "receiveFlow s flowID =
     (case sm_get (s_receiveFlows s) flowID of
        Some r \<Rightarrow> Done (r, s, [])
      | None \<Rightarrow>
          bind_outcome
            (getOrCreate (s_receiveFlowBuffer s) (s_rstore s) flowID (s_receiveBufferSize s)
               (s_qlog s) (Some (s_logger s)))
            (\<lambda>(r, b, st, es). Done (r, s\<lparr>s_receiveFlowBuffer := b, s_rstore := st\<rparr>, es)))"

text \<open>An operation on the flow of a reference.\<close>

definition on_flow :: "nat \<Rightarrow> (ReceiveFlow \<Rightarrow> ReceiveFlow outcome) \<Rightarrow> Session \<Rightarrow> Session outcome" where
  "on_flow r op s =
     (case st_flow (s_rstore s) r of
        None \<Rightarrow> Panic ''nil pointer dereference''
      | Some f \<Rightarrow> bind_outcome (op f) (\<lambda>f'. Done (s\<lparr>s_rstore := st_put r f' (s_rstore s)\<rparr>)))"

definition HandleDatagram ::
  "varint_lib \<Rightarrow> pool_pick \<Rightarrow> (nat \<Rightarrow> RTPSendStream) \<Rightarrow> close_results \<Rightarrow> Session \<Rightarrow> byte list \<Rightarrow>
     (Session \<times> effect list) outcome" where
  "HandleDatagram V pick deref cr s datagram =
     (case vi_Parse V datagram of
        Inl e \<Rightarrow> closeWithError deref cr s ErrRoQPacketError ''invalid flow ID''
      | Inr (flowID, n) \<Rightarrow>
          (let ev = qlog_if (s_qlog s) (\<lambda>q.
                 DatagramPacketParsed
                   (wire_packet q flowID datagram (word_of_nat (length datagram - n))))
           in bind_outcome (receiveFlow s flowID) (\<lambda>(r, s1, es).
              bind_outcome (vi_Len V flowID) (\<lambda>len.
                if length datagram < len then Panic ''slice bounds out of range''
                else bind_outcome (on_flow r (deliver pick (drop len datagram)) s1) (\<lambda>s2.
                       Done (s2, ev @ es))))))"

definition HandleUniStreamWithFlowID ::
  "varint_lib \<Rightarrow> pool_pick \<Rightarrow> Session \<Rightarrow> u64 \<Rightarrow> ReceiveStream \<Rightarrow> (Session \<times> effect list) outcome" where
  "HandleUniStreamWithFlowID V pick s flowID rs =
     (let ev = qlog_if (s_qlog s) (\<lambda>q. StreamOpened flowID (word_of_int (rs_ID rs)))
      in bind_outcome (receiveFlow s flowID) (\<lambda>(r, s1, es).
         case st_flow (s_rstore s1) r of
           None \<Rightarrow> Panic ''nil pointer dereference''
         | Some f \<Rightarrow>
             bind_outcome (readStream V pick f rs) (\<lambda>(f', rs', es2).
               Done (s1\<lparr>s_rstore := st_put r f' (s_rstore s1)\<rparr>, ev @ es @ es2))))"

definition handleUniStream ::
  "varint_lib \<Rightarrow> pool_pick \<Rightarrow> Session \<Rightarrow> ReceiveStream \<Rightarrow> (Session \<times> effect list) outcome" where
  "handleUniStream V pick s rs =
     (case vi_Read V rs of
        (Inl e, rs1) \<Rightarrow> Done (s, [CancelRead (rs_ID rs) ErrRoQPacketError])
      | (Inr flowID, rs1) \<Rightarrow> HandleUniStreamWithFlowID V pick s flowID rs1)"

text \<open>
  The receive loops, over what the connection returns until it fails; \<open>None\<close> as the error means the
  loop waits for more. A stream is handled by a goroutine of its own, counted by the wait group.
\<close>

fun receiveDatagrams ::
  "varint_lib \<Rightarrow> pool_pick \<Rightarrow> (nat \<Rightarrow> RTPSendStream) \<Rightarrow> close_results \<Rightarrow> (goerror + byte list) list \<Rightarrow>
     Session \<Rightarrow> (goerror option \<times> Session \<times> effect list) outcome" where
  "receiveDatagrams V pick deref cr [] s = Done (None, s, [])"
| "receiveDatagrams V pick deref cr (Inl e # rs) s = Done (Some e, s, [])"
| "receiveDatagrams V pick deref cr (Inr d # rs) s =
     bind_outcome (HandleDatagram V pick deref cr s d) (\<lambda>(s1, es).
     bind_outcome (receiveDatagrams V pick deref cr rs s1) (\<lambda>(e, s2, es2). Done (e, s2, es @ es2)))"

fun receiveUniStreams ::
  "(goerror + ReceiveStream) list \<Rightarrow> Session \<Rightarrow> goerror option \<times> ReceiveStream list \<times> Session" where
  "receiveUniStreams [] s = (None, [], s)"
| "receiveUniStreams (Inl e # rs) s = (Some e, [], s)"
| "receiveUniStreams (Inr r # rs) s =
     (case receiveUniStreams rs (s\<lparr>s_wg := Suc (s_wg s)\<rparr>) of
        (e, spawned, s') \<Rightarrow> (e, r # spawned, s'))"

end
