(* ===== verification/Session_Invariant.thy ===== *)
theory Session_Invariant
  imports Session
begin

text \<open>
  The invariant of a session and its preservation by every operation. The receive side: registered
  and buffered flows are well-formed flows of the store under their own IDs, and no ID is both
  registered and buffered. The send side: registered send flows are open. Once the session is
  closed, no send flow is registered and every registered receive flow is closed.
\<close>

section \<open>The invariant\<close>

definition names :: "rfstore \<Rightarrow> u64 \<Rightarrow> nat \<Rightarrow> bool" where
  "names st i r \<longleftrightarrow> (\<exists>f. st_flow st r = Some f \<and> rf_id f = i)"

definition store_ok :: "rfstore \<Rightarrow> bool" where
  "store_ok st \<longleftrightarrow> (\<forall>r f. st_flow st r = Some f \<longrightarrow> rf_ok [] f \<and> r < st_next st)"

definition recv_ok :: "Session \<Rightarrow> bool" where
  "recv_ok s \<longleftrightarrow>
     0 \<le> s_receiveBufferSize s \<and> sm_ok (s_receiveFlows s) \<and> rfb_ok (s_receiveFlowBuffer s) \<and>
     store_ok (s_rstore s) \<and>
     (\<forall>i r. sm_get (s_receiveFlows s) i = Some r \<longrightarrow>
        names (s_rstore s) i r \<and> map_of (rfb_buffer (s_receiveFlowBuffer s)) i = None) \<and>
     (\<forall>i r. map_of (rfb_buffer (s_receiveFlowBuffer s)) i = Some r \<longrightarrow> names (s_rstore s) i r)"

definition send_ok :: "Session \<Rightarrow> bool" where
  "send_ok s \<longleftrightarrow>
     sm_ok (s_sendFlows s) \<and>
     (\<forall>ref f. ss_flow (s_sstore s) ref = Some f \<longrightarrow> ref < ss_next (s_sstore s)) \<and>
     (\<forall>i ref. sm_get (s_sendFlows s) i = Some ref \<longrightarrow>
        (\<exists>f. ss_flow (s_sstore s) ref = Some f \<and> sf_id f = i \<and> sf_closedErr f = None))"

definition closed_ok :: "Session \<Rightarrow> bool" where
  "closed_ok s \<longleftrightarrow>
     (s_ctxDone s \<longleftrightarrow> s_closedErr s \<noteq> None) \<and>
     (s_closedErr s \<noteq> None \<longrightarrow>
        (\<forall>i. sm_get (s_sendFlows s) i = None) \<and>
        (\<forall>i r f. sm_get (s_receiveFlows s) i = Some r \<longrightarrow> st_flow (s_rstore s) r = Some f \<longrightarrow>
           rf_closed f))"

definition session_ok :: "Session \<Rightarrow> bool" where
  "session_ok s \<longleftrightarrow> recv_ok s \<and> send_ok s \<and> closed_ok s"

lemma session_okD:
  assumes "session_ok s"
  shows "recv_ok s" and "send_ok s" and "closed_ok s"
  using assms by (simp_all add: session_ok_def)

lemma namesD: "names st i r \<Longrightarrow> names st j r \<Longrightarrow> i = j"
  by (auto simp: names_def)

section \<open>The store\<close>

lemma store_ok_alloc:
  assumes "store_ok st" and "rf_ok [] f" and "st_alloc f st = (r, st')"
  shows "store_ok st'" and "r = st_next st" and "st_flow st' r = Some f"
    and "\<And>i q. names st i q \<Longrightarrow> names st' i q"
    and "\<And>q. st_flow st q \<noteq> None \<Longrightarrow> q \<noteq> r \<and> st_flow st' q = st_flow st q"
proof -
  have r: "r = st_next st"
    and st': "st' = st\<lparr>st_flow := (st_flow st)(st_next st \<mapsto> f), st_next := Suc (st_next st)\<rparr>"
    using assms(3) by (auto simp: st_alloc_def)
  have fresh: "q \<noteq> st_next st" if "st_flow st q \<noteq> None" for q
    using assms(1) that by (auto simp: store_ok_def)
  show "store_ok st'"
    using assms(1,2) by (auto simp: store_ok_def st' less_Suc_eq)
  show "r = st_next st" "st_flow st' r = Some f"
    by (simp_all add: r st')
  show "\<And>q. st_flow st q \<noteq> None \<Longrightarrow> q \<noteq> r \<and> st_flow st' q = st_flow st q"
    using fresh by (simp add: r st')
  then show "\<And>i q. names st i q \<Longrightarrow> names st' i q"
    by (auto simp: names_def)
qed

lemma store_ok_put:
  assumes "store_ok st" and "st_flow st r = Some f" and "rf_ok [] f'" and "rf_id f' = rf_id f"
  shows "store_ok (st_put r f' st)" and "names (st_put r f' st) i q = names st i q"
  using assms by (auto simp: store_ok_def st_put_def names_def)

text \<open>Replacing a flow by one that is well-formed and has the same ID keeps the receive side.\<close>

lemma recv_ok_put:
  assumes "recv_ok s" and "st_flow (s_rstore s) r = Some f" and "rf_ok [] f'" and "rf_id f' = rf_id f"
  shows "recv_ok (s\<lparr>s_rstore := st_put r f' (s_rstore s)\<rparr>)"
proof -
  have "store_ok (s_rstore s)"
    using assms(1) by (simp add: recv_ok_def)
  from store_ok_put [OF this assms(2-4)] show ?thesis
    using assms(1) by (simp add: recv_ok_def)
qed

section \<open>Looking up the flow of a packet\<close>

lemma new_flow_ok: "0 \<le> n \<Longrightarrow> \<exists>f. newReceiveFlow i n q lg = Done f \<and> rf_ok [] f \<and> rf_id f = i"
proof -
  assume "0 \<le> n"
  then obtain f where f: "newReceiveFlow i n q lg = Done f"
    by (simp add: newReceiveFlow_def)
  then show ?thesis
    using rf_ok_new [OF f] rf_new_fields(3) [OF f] by blast
qed

text \<open>A new flow for an unregistered ID joins the buffer.\<close>

lemma recv_ok_buffered:
  assumes "recv_ok s" and "sm_get (s_receiveFlows s) i = None" and "rfb_ok b" and "store_ok st"
    and "\<And>j q. names (s_rstore s) j q \<Longrightarrow> names st j q"
    and "map_of (rfb_buffer b) i = Some r" and "names st i r"
    and "\<And>j q. map_of (rfb_buffer b) j = Some q \<Longrightarrow> j \<noteq> i \<Longrightarrow>
           map_of (rfb_buffer (s_receiveFlowBuffer s)) j = Some q"
  shows "recv_ok (s\<lparr>s_receiveFlowBuffer := b, s_rstore := st\<rparr>)"
proof -
  have "map_of (rfb_buffer b) j = None" if "sm_get (s_receiveFlows s) j = Some q" for j q
  proof -
    have "j \<noteq> i" and "map_of (rfb_buffer (s_receiveFlowBuffer s)) j = None"
      using that assms(1,2) by (auto simp: recv_ok_def)
    then show ?thesis
      using assms(8) [of j] by (cases "map_of (rfb_buffer b) j") auto
  qed
  moreover have "names st j q" if "map_of (rfb_buffer b) j = Some q" for j q
    using that assms(1,5-8) by (cases "j = i") (auto simp: recv_ok_def)
  ultimately show ?thesis
    using assms(1,3-5) by (simp add: recv_ok_def)
qed

text \<open>
  \<open>receiveFlow\<close> returns the registered flow of the ID, or the buffered one, or a new one that is now
  buffered. Nothing else of the session changes, and flows that exist stay as they are.
\<close>

definition found :: "Session \<Rightarrow> u64 \<Rightarrow> nat \<Rightarrow> Session \<Rightarrow> bool" where
  "found s i r s' \<longleftrightarrow>
     recv_ok s' \<and> names (s_rstore s') i r \<and>
     s' = s\<lparr>s_receiveFlowBuffer := s_receiveFlowBuffer s', s_rstore := s_rstore s'\<rparr> \<and>
     (\<forall>q. st_flow (s_rstore s) q \<noteq> None \<longrightarrow> st_flow (s_rstore s') q = st_flow (s_rstore s) q) \<and>
     (sm_get (s_receiveFlows s) i = Some r \<or>
      map_of (rfb_buffer (s_receiveFlowBuffer s')) i = Some r)"

lemma receiveFlow_known:
  assumes "recv_ok s"
    and "sm_get (s_receiveFlows s) i = Some r \<or>
         map_of (rfb_buffer (s_receiveFlowBuffer s)) i = Some r"
  shows "receiveFlow s i = Done (r, s, [])" and "found s i r s"
  using assms
  by (auto simp: receiveFlow_def getOrCreate_present found_def recv_ok_def split: option.split)

lemma receiveFlow_unknown:
  assumes "recv_ok s" and "sm_get (s_receiveFlows s) i = None"
    and "map_of (rfb_buffer (s_receiveFlowBuffer s)) i = None"
  obtains f b1 s' es where
    "newReceiveFlow i (s_receiveBufferSize s) (s_qlog s) (Some (s_logger s)) = Done f"
    "evict (s_rstore s) (s_receiveFlowBuffer s) = Done (b1, es)"
    "receiveFlow s i = Done (st_next (s_rstore s), s', es)"
    "found s i (st_next (s_rstore s)) s'" "st_flow (s_rstore s') (st_next (s_rstore s)) = Some f"
proof -
  let ?b = "s_receiveFlowBuffer s" and ?st = "s_rstore s"
  have ok: "rfb_ok ?b" "store_ok ?st" "0 \<le> s_receiveBufferSize s"
    using assms(1) by (simp_all add: recv_ok_def)
  obtain f where f: "newReceiveFlow i (s_receiveBufferSize s) (s_qlog s) (Some (s_logger s)) = Done f"
    "rf_ok [] f" "rf_id f = i"
    using new_flow_ok [OF ok(3)] by blast
  obtain b1 es b' where g: "evict ?st ?b = Done (b1, es)"
    "getOrCreate ?b ?st i (s_receiveBufferSize s) (s_qlog s) (Some (s_logger s))
       = Done (st_next ?st, b', snd (st_alloc f ?st), es)"
    "rfb_ok b'" "maxLen b' = maxLen ?b" "rfb_queue b' = rfb_queue b1 @ [i]"
    "map_of (rfb_buffer b') i = Some (st_next ?st)"
    "\<And>j r. map_of (rfb_buffer b') j = Some r \<Longrightarrow> j \<noteq> i \<Longrightarrow> map_of (rfb_buffer ?b) j = Some r"
    by (rule getOrCreate_absent [OF ok(1) assms(3) f(1), of ?st]) (rule that)
  define st' where "st' = snd (st_alloc f ?st)"
  have al: "st_alloc f ?st = (st_next ?st, st')"
    by (simp add: st'_def st_alloc_def)
  note a = store_ok_alloc [OF ok(2) f(2) al]
  define s' where "s' = s\<lparr>s_receiveFlowBuffer := b', s_rstore := st'\<rparr>"
  have nm: "names st' i (st_next ?st)"
    using a(3) f(3) by (simp add: names_def)
  have "recv_ok s'"
    unfolding s'_def using assms(1,2) g(3) a(1,4) g(6) nm g(7) by (rule recv_ok_buffered)
  then have "found s i (st_next ?st) s'"
    using nm g(6) a(5) by (auto simp: found_def s'_def)
  moreover have "receiveFlow s i = Done (st_next ?st, s', es)"
    using assms(2) g(2) by (simp add: receiveFlow_def s'_def st'_def)
  ultimately show thesis
    using that f(1) g(1) a(3) by (simp add: s'_def)
qed

lemma receiveFlow_ok:
  assumes "recv_ok s"
  obtains r s' es where "receiveFlow s i = Done (r, s', es)" and "found s i r s'"
proof (cases "sm_get (s_receiveFlows s) i")
  case None
  show thesis
  proof (cases "map_of (rfb_buffer (s_receiveFlowBuffer s)) i")
    case None
    show thesis
      by (rule receiveFlow_unknown [OF assms \<open>sm_get (s_receiveFlows s) i = None\<close> None]) (rule that)
  next
    case (Some r)
    then show thesis
      using receiveFlow_known [OF assms] that by blast
  qed
next
  case (Some r)
  then show thesis
    using receiveFlow_known [OF assms] that by blast
qed

lemma found_ok:
  assumes "session_ok s" and "found s i r s'"
  shows "session_ok s'"
proof -
  have eq: "s' = s\<lparr>s_receiveFlowBuffer := s_receiveFlowBuffer s', s_rstore := s_rstore s'\<rparr>"
    and keep: "\<And>q. st_flow (s_rstore s) q \<noteq> None \<Longrightarrow> st_flow (s_rstore s') q = st_flow (s_rstore s) q"
    and recv: "recv_ok s'"
    using assms(2) by (simp_all add: found_def)
  have flds: "s_receiveFlows s' = s_receiveFlows s" "s_sendFlows s' = s_sendFlows s"
    "s_sstore s' = s_sstore s" "s_closedErr s' = s_closedErr s" "s_ctxDone s' = s_ctxDone s"
    by (subst eq, simp)+
  have "st_flow (s_rstore s') q = st_flow (s_rstore s) q"
    if "sm_get (s_receiveFlows s) j = Some q" for j q
  proof -
    have "names (s_rstore s) j q"
      using that assms(1) by (simp add: session_ok_def recv_ok_def)
    then show ?thesis
      by (intro keep) (auto simp: names_def)
  qed
  then have "closed_ok s'"
    using assms(1) by (fastforce simp: session_ok_def closed_ok_def flds)
  moreover have "send_ok s'"
    using assms(1) by (simp add: session_ok_def send_ok_def flds)
  ultimately show ?thesis
    using recv by (simp add: session_ok_def)
qed

text \<open>Updating a flow without reopening it.\<close>

lemma session_ok_put:
  assumes "session_ok s" and "st_flow (s_rstore s) r = Some f" and "rf_ok [] f'"
    and "rf_id f' = rf_id f" and "rf_closed f \<longrightarrow> rf_closed f'"
  shows "session_ok (s\<lparr>s_rstore := st_put r f' (s_rstore s)\<rparr>)"
proof -
  have "closed_ok (s\<lparr>s_rstore := st_put r f' (s_rstore s)\<rparr>)"
    using assms(1,2,5) by (auto simp: session_ok_def closed_ok_def st_put_def)
  then show ?thesis
    using recv_ok_put [OF _ assms(2-4)] assms(1) by (simp add: session_ok_def send_ok_def)
qed

section \<open>Creating flows\<close>

lemma recv_ok_register:
  assumes "recv_ok s" and "pop (s_receiveFlowBuffer s) i = (res, b)" and "store_ok st"
    and "\<And>j q. names (s_rstore s) j q \<Longrightarrow> names st j q" and "names st i r"
  shows "recv_ok (s\<lparr>s_receiveFlowBuffer := b, s_rstore := st,
    s_receiveFlows := sm_set i r (s_receiveFlows s)\<rparr>)"
proof -
  have "rfb_ok (s_receiveFlowBuffer s)"
    using assms(1) by (simp add: recv_ok_def)
  note p = pop_ok [OF this assms(2)]
  show ?thesis
    using assms(1,3-5) p(1,5) by (auto simp: recv_ok_def sm_get_update roq_inv)
qed

lemma NewReceiveFlow_locked_ok:
  assumes "recv_ok s" and "sm_get (s_receiveFlows s) i = None"
  obtains r b st where
    "NewReceiveFlow_locked s i = Done (Inr r, s\<lparr>s_receiveFlowBuffer := b, s_rstore := st,
       s_receiveFlows := sm_set i r (s_receiveFlows s)\<rparr>)"
    "recv_ok (s\<lparr>s_receiveFlowBuffer := b, s_rstore := st,
       s_receiveFlows := sm_set i r (s_receiveFlows s)\<rparr>)"
    "pop (s_receiveFlowBuffer s) i = (map_of (rfb_buffer (s_receiveFlowBuffer s)) i, b)"
    "case map_of (rfb_buffer (s_receiveFlowBuffer s)) i of
       Some q \<Rightarrow> r = q \<and> st = s_rstore s
     | None \<Rightarrow> \<exists>f. newReceiveFlow i (s_receiveBufferSize s) (s_qlog s) (Some (s_logger s)) = Done f
                 \<and> (r, st) = st_alloc f (s_rstore s)"
proof -
  obtain res b where pop: "pop (s_receiveFlowBuffer s) i = (res, b)"
    by (cases "pop (s_receiveFlowBuffer s) i")
  have ok: "rfb_ok (s_receiveFlowBuffer s)" "store_ok (s_rstore s)" "0 \<le> s_receiveBufferSize s"
    using assms(1) by (simp_all add: recv_ok_def)
  note p = pop_ok [OF ok(1) pop]
  show thesis
  proof (cases res)
    case (Some r)
    then have "names (s_rstore s) i r"
      using p(2) assms(1) by (simp add: recv_ok_def)
    then have "recv_ok (s\<lparr>s_receiveFlowBuffer := b, s_rstore := s_rstore s,
        s_receiveFlows := sm_set i r (s_receiveFlows s)\<rparr>)"
      by (intro recv_ok_register [OF assms(1) pop ok(2)])
    then show thesis
      using assms(2) pop p(2) [symmetric] Some
      by (intro that [where r = r and b = b and st = "s_rstore s"])
        (simp_all add: NewReceiveFlow_locked_def)
  next
    case None
    obtain f where f: "newReceiveFlow i (s_receiveBufferSize s) (s_qlog s) (Some (s_logger s)) = Done f"
      "rf_ok [] f" "rf_id f = i"
      using new_flow_ok [OF ok(3)] by blast
    obtain r st where al: "st_alloc f (s_rstore s) = (r, st)"
      by (cases "st_alloc f (s_rstore s)")
    note a = store_ok_alloc [OF ok(2) f(2) al]
    have "names st i r"
      using a(3) f(3) by (simp add: names_def)
    then have "recv_ok (s\<lparr>s_receiveFlowBuffer := b, s_rstore := st,
        s_receiveFlows := sm_set i r (s_receiveFlows s)\<rparr>)"
      by (intro recv_ok_register [OF assms(1) pop a(1,4)])
    then show thesis
      using assms(2) pop p(2) [symmetric] None f(1) al
      by (intro that [where r = r and b = b and st = st]) (simp_all add: NewReceiveFlow_locked_def)
  qed
qed

lemma NewReceiveFlow_ok:
  assumes "session_ok s"
  shows "\<exists>res s'. NewReceiveFlow s i = Done (res, s') \<and> session_ok s'"
proof (cases "s_closedErr s = None \<and> sm_get (s_receiveFlows s) i = None")
  case True
  have recv: "recv_ok s" and none: "sm_get (s_receiveFlows s) i = None"
    using assms True by (simp_all add: session_ok_def)
  obtain r b st where n: "NewReceiveFlow_locked s i = Done (Inr r, s\<lparr>s_receiveFlowBuffer := b,
      s_rstore := st, s_receiveFlows := sm_set i r (s_receiveFlows s)\<rparr>)"
    "recv_ok (s\<lparr>s_receiveFlowBuffer := b, s_rstore := st,
       s_receiveFlows := sm_set i r (s_receiveFlows s)\<rparr>)"
    using recv none by (rule NewReceiveFlow_locked_ok)
  then have "session_ok (s\<lparr>s_receiveFlowBuffer := b, s_rstore := st,
      s_receiveFlows := sm_set i r (s_receiveFlows s)\<rparr>)"
    using assms True by (simp add: session_ok_def send_ok_def closed_ok_def)
  with n(1) True show ?thesis
    by (simp add: NewReceiveFlow_def isClosed_def)
next
  case False
  then show ?thesis
    using assms by (auto simp: NewReceiveFlow_def isClosed_def NewReceiveFlow_locked_def
        split: option.split)
qed

lemma NewReceiveFlow_open:
  assumes "session_ok s" and "s_closedErr s = None" and "sm_get (s_receiveFlows s) i = None"
  obtains r s' f where "NewReceiveFlow s i = Done (Inr r, s')" and "session_ok s'"
    and "sm_get (s_receiveFlows s') i = Some r" and "st_flow (s_rstore s') r = Some f" and "rf_id f = i"
    and "map_of (rfb_buffer (s_receiveFlowBuffer s')) i = None"
    and "case map_of (rfb_buffer (s_receiveFlowBuffer s)) i of
      Some b \<Rightarrow> r = b \<and> st_flow (s_rstore s) r = Some f
    | None \<Rightarrow> newReceiveFlow i (s_receiveBufferSize s) (s_qlog s) (Some (s_logger s)) = Done f"
proof -
  have recv: "recv_ok s"
    using assms(1) by (simp add: session_ok_def)
  obtain r b st where n: "NewReceiveFlow_locked s i = Done (Inr r, s\<lparr>s_receiveFlowBuffer := b,
      s_rstore := st, s_receiveFlows := sm_set i r (s_receiveFlows s)\<rparr>)"
    "recv_ok (s\<lparr>s_receiveFlowBuffer := b, s_rstore := st,
       s_receiveFlows := sm_set i r (s_receiveFlows s)\<rparr>)"
    "pop (s_receiveFlowBuffer s) i = (map_of (rfb_buffer (s_receiveFlowBuffer s)) i, b)"
    "case map_of (rfb_buffer (s_receiveFlowBuffer s)) i of
       Some q \<Rightarrow> r = q \<and> st = s_rstore s
     | None \<Rightarrow> \<exists>f. newReceiveFlow i (s_receiveBufferSize s) (s_qlog s) (Some (s_logger s)) = Done f
                 \<and> (r, st) = st_alloc f (s_rstore s)"
    by (rule NewReceiveFlow_locked_ok [OF recv assms(3)]) (rule that)
  let ?s = "s\<lparr>s_receiveFlowBuffer := b, s_rstore := st, s_receiveFlows := sm_set i r (s_receiveFlows s)\<rparr>"
  have new: "NewReceiveFlow s i = Done (Inr r, ?s)"
    using n(1) assms(2) by (simp add: NewReceiveFlow_def isClosed_def)
  have reg: "sm_get (s_receiveFlows ?s) i = Some r"
    by (simp add: sm_get_update)
  then obtain f where f: "st_flow (s_rstore ?s) r = Some f" "rf_id f = i"
    "map_of (rfb_buffer (s_receiveFlowBuffer ?s)) i = None"
    using n(2) unfolding recv_ok_def names_def by blast
  moreover have "case map_of (rfb_buffer (s_receiveFlowBuffer s)) i of
      Some b \<Rightarrow> r = b \<and> st_flow (s_rstore s) r = Some f
    | None \<Rightarrow> newReceiveFlow i (s_receiveBufferSize s) (s_qlog s) (Some (s_logger s)) = Done f"
    using n(4) f(1) by (auto simp: st_alloc_def split: option.splits)
  ultimately show thesis
    using NewReceiveFlow_ok [OF assms(1), of i] new reg by (intro that [where r = r and s' = ?s and f = f]) simp_all
qed

lemma send_ok_insert:
  assumes "send_ok s" and "ss_alloc f (s_sstore s) = (ref, store)" and "sf_closedErr f = None"
    and "sf_id f = i"
  shows "send_ok (s\<lparr>s_sendFlows := sm_set i ref (s_sendFlows s), s_sstore := store\<rparr>)"
  using assms by (fastforce simp: send_ok_def ss_alloc_def roq_inv sm_get_update)

context quicvarint
begin

lemma NewSendFlow_ok:
  assumes "session_ok s" and "fits62 i"
  shows "\<exists>res s'. NewSendFlow V s i = Done (res, s') \<and> session_ok s'"
proof (cases "s_closedErr s")
  case (Some e)
  then show ?thesis
    using assms(1) by (simp add: NewSendFlow_def isClosed_def)
next
  case None
  obtain f where f: "newFlow V i (s_qlog s) (Some (s_logger s)) = Done f"
    using newFlow_ok [OF assms(2)] by simp
  obtain ref store where al: "ss_alloc f (s_sstore s) = (ref, store)"
    by (cases "ss_alloc f (s_sstore s)")
  show ?thesis
  proof (cases "sm_get (s_sendFlows s) i")
    case (Some old)
    then show ?thesis
      using assms(1) None f al by (simp add: NewSendFlow_def NewSendFlow_insert_def isClosed_def sm.add_present)
  next
    case free: None
    have "send_ok (s\<lparr>s_sendFlows := sm_set i ref (s_sendFlows s), s_sstore := store\<rparr>)"
      using assms(1) newFlow_Done [OF f] by (intro send_ok_insert [OF _ al]) (simp_all add: session_ok_def)
    then show ?thesis
      using assms(1) None f al free
      by (simp add: NewSendFlow_def NewSendFlow_insert_def isClosed_def sm.add_absent session_ok_def
          recv_ok_def closed_ok_def)
  qed
qed

end

end
