(* ===== verification/Session_Shutdown.thy ===== *)
theory Session_Shutdown
  imports Session_Invariant
begin

text \<open>
  What \<open>close\<close> of \<open>session.go\<close> does: the two loops over snapshots of the flow maps are computed in
  closed form, whatever the order of the snapshots, and the shutdown is shown to reach every flow,
  to leave no send flow registered, and to happen once.
\<close>

section \<open>The loop over the send flows\<close>

definition mark_closed :: "nat set \<Rightarrow> sendstore \<Rightarrow> sendstore" where
  "mark_closed R st = st\<lparr>ss_flow := (\<lambda>ref.
     if ref \<in> R then map_option (\<lambda>f. f\<lparr>sf_closedErr := Some errClosed\<rparr>) (ss_flow st ref)
     else ss_flow st ref)\<rparr>"

definition stream_closes :: "(nat \<Rightarrow> RTPSendStream) \<Rightarrow> sendstore \<Rightarrow> nat \<Rightarrow> effect list" where
  "stream_closes deref st ref =
     (case ss_flow st ref of
        None \<Rightarrow> []
      | Some f \<Rightarrow> map (\<lambda>r. StreamClose (rss_stream (deref r))) (sf_streams f))"

lemma mark_closed_empty [simp]: "mark_closed {} st = st"
  by (simp add: mark_closed_def)

lemma mark_closed_Un [simp]: "mark_closed R (mark_closed R' st) = mark_closed (R \<union> R') st"
proof -
  have "(map_option (\<lambda>f. f\<lparr>sf_closedErr := Some errClosed\<rparr>)
      \<circ> map_option (\<lambda>f. f\<lparr>sf_closedErr := Some errClosed\<rparr>)) x
      = map_option (\<lambda>f. f\<lparr>sf_closedErr := Some errClosed\<rparr>) x" for x :: "SendFlow option"
    by (cases x) simp_all
  then show ?thesis
    by (simp add: mark_closed_def fun_eq_iff comp_def)
qed

lemma stream_closes_mark_closed [simp]: "stream_closes deref (mark_closed R st) = stream_closes deref st"
  by (rule ext) (auto simp: stream_closes_def mark_closed_def split: option.split)

lemma close_send_flow_eq:
  assumes "ss_flow (s_sstore s) ref = Some f"
  shows "close_send_flow deref ce ref s =
    (errors_Join (map (\<lambda>r. ce (rss_stream (deref r))) (sf_streams f)),
     s\<lparr>s_sendFlows := sm_delete (sf_id f) (s_sendFlows s), s_sstore := mark_closed {ref} (s_sstore s)\<rparr>,
     stream_closes deref (s_sstore s) ref)"
  using assms
  by (auto simp: close_send_flow_def SendFlow_Close_eq stream_closes_def mark_closed_def fun_eq_iff)

definition flows_named :: "sendstore \<Rightarrow> (u64 \<times> nat) list \<Rightarrow> bool" where
  "flows_named st xs \<longleftrightarrow> (\<forall>(i, ref) \<in> set xs. \<exists>f. ss_flow st ref = Some f \<and> sf_id f = i)"

lemma flows_named_mark_closed: "flows_named st xs \<Longrightarrow> flows_named (mark_closed R st) xs"
  by (fastforce simp: flows_named_def mark_closed_def)

lemma close_send_loop:
  assumes "flows_named (s_sstore s) xs"
  shows "fold (\<lambda>(k, ref) (st, es). case close_send_flow deref ce ref st of
                                     (_, st', es') \<Rightarrow> (st', es @ es')) xs (s, es) =
    (s\<lparr>s_sendFlows := fold sm_delete (map fst xs) (s_sendFlows s),
       s_sstore := mark_closed (snd ` set xs) (s_sstore s)\<rparr>,
     es @ concat (map (stream_closes deref (s_sstore s) \<circ> snd) xs))"
  using assms
proof (induction xs arbitrary: s es)
  case Nil
  then show ?case by simp
next
  case (Cons x xs)
  obtain i ref where x: "x = (i, ref)"
    by (cases x)
  obtain f where f: "ss_flow (s_sstore s) ref = Some f" "sf_id f = i"
    using Cons.prems x by (auto simp: flows_named_def)
  define s1 where "s1 = s\<lparr>s_sendFlows := sm_delete i (s_sendFlows s),
    s_sstore := mark_closed {ref} (s_sstore s)\<rparr>"
  have "flows_named (s_sstore s) xs"
    using Cons.prems by (simp add: flows_named_def)
  then have "flows_named (s_sstore s1) xs"
    by (simp add: s1_def flows_named_mark_closed)
  note IH = Cons.IH [OF this, of "es @ stream_closes deref (s_sstore s) ref"]
  then show ?case
    using close_send_flow_eq [OF f(1)] by (simp add: x f(2) s1_def)
qed

lemma sm_get_delete_all: "sm_get (fold sm_delete ks m) k = (if k \<in> set ks then None else sm_get m k)"
  by (induction ks arbitrary: m) (auto simp: sm_get_delete)

lemma sm_ok_delete_all [roq_inv]: "sm_ok m \<Longrightarrow> sm_ok (fold sm_delete ks m)"
  by (induction ks arbitrary: m) (auto simp: roq_inv)

lemma sm_get_delete_elements: "sm_get (fold sm_delete (map fst (elements m)) m) k = None"
proof (cases "k \<in> fst ` set (elements m)")
  case True
  then show ?thesis
    by (simp add: sm_get_delete_all)
next
  case False
  then show ?thesis
    by (simp add: sm_get_delete_all) (simp add: sm_get_def map_of_eq_None_iff)
qed

section \<open>The loop over the receive flows\<close>

definition close_flows :: "nat set \<Rightarrow> rfstore \<Rightarrow> rfstore" where
  "close_flows R st = st\<lparr>st_flow := (\<lambda>r.
     if r \<in> R then map_option closed_flow (st_flow st r) else st_flow st r)\<rparr>"

definition stream_cancels :: "rfstore \<Rightarrow> nat \<Rightarrow> effect list" where
  "stream_cancels st r =
     (case st_flow st r of None \<Rightarrow> [] | Some f \<Rightarrow> rf_closeWithError ErrRoQNoError f)"

lemma close_flows_empty [simp]: "close_flows {} st = st"
  by (simp add: close_flows_def)

lemma close_flows_Un [simp]: "close_flows R (close_flows R' st) = close_flows (R \<union> R') st"
proof -
  have "map_option closed_flow (map_option closed_flow x) = map_option closed_flow x" for x
    by (cases x) simp_all
  then show ?thesis
    by (cases st) (auto simp: close_flows_def fun_eq_iff)
qed

lemma stream_cancels_close_flows [simp]: "stream_cancels (close_flows R st) = stream_cancels st"
  by (rule ext) (auto simp: stream_cancels_def close_flows_def rf_closeWithError_def split: option.split)

lemma store_ok_close_flows [roq_inv]: "store_ok st \<Longrightarrow> store_ok (close_flows R st)"
  by (auto simp: store_ok_def close_flows_def roq_inv split: if_splits)

lemma names_close_flows [simp]: "names (close_flows R st) i r = names st i r"
  by (auto simp: names_def close_flows_def)

lemma close_receive_flow_eq:
  assumes "store_ok (s_rstore s)"
  shows "close_receive_flow r s =
    Done (s\<lparr>s_rstore := close_flows {r} (s_rstore s)\<rparr>, stream_cancels (s_rstore s) r)"
proof (cases "st_flow (s_rstore s) r")
  case None
  then have "close_flows {r} (s_rstore s) = s_rstore s"
    by (cases "s_rstore s") (auto simp: close_flows_def fun_eq_iff)
  with None show ?thesis
    by (simp add: close_receive_flow_def stream_cancels_def)
next
  case (Some f)
  then have "rf_ok [] f"
    using assms by (simp add: store_ok_def)
  moreover have "st_put r (closed_flow f) (s_rstore s) = close_flows {r} (s_rstore s)"
    using Some by (auto simp: st_put_def close_flows_def fun_eq_iff)
  ultimately show ?thesis
    using Some by (simp add: close_receive_flow_def ReceiveFlow_Close_eq stream_cancels_def)
qed

lemma close_receive_loop:
  assumes "store_ok (s_rstore s)"
  shows "fold (\<lambda>(k, r) acc. bind_outcome acc (\<lambda>(st, es).
            bind_outcome (close_receive_flow r st) (\<lambda>(st', es'). Done (st', es @ es')))) xs
          (Done (s, es)) =
    Done (s\<lparr>s_rstore := close_flows (snd ` set xs) (s_rstore s)\<rparr>,
          es @ concat (map (stream_cancels (s_rstore s) \<circ> snd) xs))"
  using assms
proof (induction xs arbitrary: s es)
  case Nil
  then show ?case by simp
next
  case (Cons x xs)
  show ?case
    using close_receive_flow_eq [OF Cons.prems, of "snd x"] store_ok_close_flows [OF Cons.prems]
      Cons.IH [of "s\<lparr>s_rstore := close_flows {snd x} (s_rstore s)\<rparr>"]
    by (simp add: split_beta)
qed

section \<open>The shutdown\<close>

definition shut :: "close_results \<Rightarrow> u64 \<Rightarrow> string \<Rightarrow> Session \<Rightarrow> Session" where
  "shut cr c why s =
     s\<lparr>s_closedErr := Some (SessionErr \<lparr>se_code = c, se_reason = why\<rparr>),
       s_sendFlows := fold sm_delete (map fst (elements (s_sendFlows s))) (s_sendFlows s),
       s_sstore := mark_closed (snd ` set (elements (s_sendFlows s))) (s_sstore s),
       s_rstore := close_flows (snd ` set (elements (s_receiveFlows s))) (s_rstore s),
       s_connCloseErr := cr_conn cr, s_ctxDone := True\<rparr>"

definition shut_effects :: "(nat \<Rightarrow> RTPSendStream) \<Rightarrow> u64 \<Rightarrow> string \<Rightarrow> Session \<Rightarrow> effect list" where
  "shut_effects deref c why s =
     concat (map (stream_closes deref (s_sstore s) \<circ> snd) (elements (s_sendFlows s))) @
     concat (map (stream_cancels (s_rstore s) \<circ> snd) (elements (s_receiveFlows s))) @
     [ConnCloseWithError c why]"

lemma send_ok_named: "send_ok s \<Longrightarrow> flows_named (s_sstore s) (elements (s_sendFlows s))"
  by (fastforce simp: send_ok_def flows_named_def sm_get_iff_elements)

lemma s_close_eq:
  assumes "session_ok s" and "s_closedErr s = None"
  shows "s_close deref cr s c why = Done (shut cr c why s, shut_effects deref c why s)"
proof -
  have named: "flows_named (s_sstore s) (elements (s_sendFlows s))" and st: "store_ok (s_rstore s)"
    using assms(1) by (simp_all add: session_ok_def send_ok_named recv_ok_def)
  then show ?thesis
    using assms(2)
    by (simp add: s_close_def rangeFn_def close_send_loop close_receive_loop shut_def shut_effects_def)
qed

lemma s_close_again: "s_closedErr s \<noteq> None \<Longrightarrow> s_close deref cr s c why = Done (s, [])"
  by (simp add: s_close_def)

lemma shut_ok:
  assumes "session_ok s"
  shows "session_ok (shut cr c why s)"
proof -
  have recv: "recv_ok (shut cr c why s)"
    using assms by (simp add: session_ok_def recv_ok_def shut_def roq_inv)
  have send: "send_ok (shut cr c why s)"
    using assms
    by (auto simp: session_ok_def send_ok_def shut_def roq_inv sm_get_delete_elements
        mark_closed_def split: if_splits)
  have "rf_closed f" if g: "sm_get (s_receiveFlows s) i = Some r"
    "st_flow (s_rstore (shut cr c why s)) r = Some f" for i r f
  proof -
    have "r \<in> snd ` set (elements (s_receiveFlows s))"
      using sm_get_in_elements [OF g(1)] by force
    then show ?thesis
      using g(2) by (auto simp: shut_def close_flows_def)
  qed
  then have "closed_ok (shut cr c why s)"
    by (auto simp: closed_ok_def shut_def sm_get_delete_elements)
  with recv send show ?thesis
    by (simp add: session_ok_def)
qed

lemma s_close_ok:
  assumes "session_ok s"
  shows "\<exists>s' es. s_close deref cr s c why = Done (s', es) \<and> session_ok s' \<and> s_closedErr s' \<noteq> None"
  using s_close_eq [OF assms] s_close_again [of s] shut_ok [OF assms] assms
  by (cases "s_closedErr s") (auto simp: shut_def)

section \<open>What the shutdown reaches\<close>

lemma shut_send_flow:
  assumes "session_ok s" and "sm_get (s_sendFlows s) i = Some ref"
    and "set (concat (map (stream_closes deref (s_sstore s) \<circ> snd) (elements (s_sendFlows s)))) \<subseteq> E"
  shows "sm_get (s_sendFlows (shut cr c why s)) i = None \<and>
    (\<exists>f f'. ss_flow (s_sstore s) ref = Some f \<and> ss_flow (s_sstore (shut cr c why s)) ref = Some f' \<and>
       sf_isClosed f' = Some errClosed \<and>
       (\<forall>k \<in> set (sf_streams f). StreamClose (rss_stream (deref k)) \<in> E))"
proof -
  have el: "(i, ref) \<in> set (elements (s_sendFlows s))"
    using assms(2) by (rule sm_get_in_elements)
  obtain f where f: "ss_flow (s_sstore s) ref = Some f"
    using assms by (force simp: session_ok_def send_ok_def)
  have "ref \<in> snd ` set (elements (s_sendFlows s))"
    using el by force
  then have "ss_flow (s_sstore (shut cr c why s)) ref = Some (f\<lparr>sf_closedErr := Some errClosed\<rparr>)"
    using f by (simp add: shut_def mark_closed_def)
  moreover have "\<forall>k \<in> set (sf_streams f). StreamClose (rss_stream (deref k)) \<in> E"
    using el f by (intro ballI subsetD [OF assms(3)]) (force simp: stream_closes_def)
  ultimately show ?thesis
    using f by (simp add: sf_isClosed_def) (simp add: shut_def sm_get_delete_elements)
qed

lemma shut_receive_flow:
  assumes "session_ok s" and "sm_get (s_receiveFlows s) i = Some r"
    and "set (concat (map (stream_cancels (s_rstore s) \<circ> snd) (elements (s_receiveFlows s)))) \<subseteq> E"
  shows "\<exists>f f'. st_flow (s_rstore s) r = Some f \<and> st_flow (s_rstore (shut cr c why s)) r = Some f' \<and>
    rf_closed f' \<and> rf_ctxDone f' \<and> rf_packets f' = rf_packets f \<and>
    (\<forall>k \<in> set (rf_streams f). CancelRead k ErrRoQNoError \<in> E)"
proof -
  have el: "(i, r) \<in> set (elements (s_receiveFlows s))"
    using assms(2) by (rule sm_get_in_elements)
  obtain f where f: "st_flow (s_rstore s) r = Some f"
    using assms unfolding session_ok_def recv_ok_def names_def by blast
  have "r \<in> snd ` set (elements (s_receiveFlows s))"
    using el by force
  then have "st_flow (s_rstore (shut cr c why s)) r = Some (closed_flow f)"
    using f by (simp add: shut_def close_flows_def)
  moreover have "\<forall>k \<in> set (rf_streams f). CancelRead k ErrRoQNoError \<in> E"
    using el f by (intro ballI subsetD [OF assms(3)]) (force simp: stream_cancels_def rf_closeWithError_def)
  ultimately show ?thesis
    using f by simp
qed

end
