(* ===== verification/Session_Receive.thy ===== *)
theory Session_Receive
  imports Session_Shutdown
begin

text \<open>
  What the receiving operations of \<open>session.go\<close> do to a well-formed session: a datagram or a stream
  reaches exactly the flow of its flow ID, and every operation keeps the session well-formed and
  does not panic. Sessions reachable by any sequence of operations are therefore well-formed.
\<close>

section \<open>Datagrams\<close>

text \<open>The session after a flow of it was replaced.\<close>

abbreviation with_flow :: "nat \<Rightarrow> ReceiveFlow \<Rightarrow> Session \<Rightarrow> Session" where
  "with_flow r f s \<equiv> s\<lparr>s_rstore := st_put r f (s_rstore s)\<rparr>"

lemma found_flow:
  assumes "found s i r s1"
  obtains f where "st_flow (s_rstore s1) r = Some f" and "rf_ok [] f" and "rf_id f = i"
  using assms by (auto simp: found_def names_def recv_ok_def store_ok_def)

lemma queues_put_ok:
  assumes "session_ok s" and "st_flow (s_rstore s) r = Some f" and "queues f ps f'"
  shows "session_ok (with_flow r f' s)"
  using assms(3)
  by (intro session_ok_put [OF assms(1,2)]) (simp_all add: queues_def same_but_buffers_def)

context quicvarint
begin

text \<open>
  A datagram with a flow ID: the flow of that ID gets one packet, the datagram behind the shortest
  encoding of the ID; everything else of the session stays as the lookup left it.
\<close>

lemma HandleDatagram_parsed:
  assumes "session_ok s" and "vi_Parse V d = Inr (i, n)"
  obtains r s1 es f f' where
    "receiveFlow s i = Done (r, s1, es)" "found s i r s1" "st_flow (s_rstore s1) r = Some f"
    "rf_ok [] f" "rf_id f = i" "queues f [drop (length (vi_enc V i)) d] f'"
    "HandleDatagram V pick deref cr s d = Done (with_flow r f' s1,
       qlog_if (s_qlog s) (\<lambda>q. DatagramPacketParsed
         (wire_packet q i d (word_of_nat (length d - n)))) @ es)"
    "session_ok (with_flow r f' s1)"
proof -
  have i: "fits62 i" and len: "length (vi_enc V i) \<le> length d"
    using Parse_Inr_bounds [OF assms(2)] Parse_minimal [OF assms(2)] by simp_all
  obtain r s1 es where rf: "receiveFlow s i = Done (r, s1, es)" "found s i r s1"
    using receiveFlow_ok assms(1) session_okD(1) by blast
  obtain f where f: "st_flow (s_rstore s1) r = Some f" "rf_ok [] f" "rf_id f = i"
    using rf(2) by (rule found_flow)
  obtain f' where f': "deliver pick (drop (length (vi_enc V i)) d) f = Done f'"
    "queues f [drop (length (vi_enc V i)) d] f'"
    using deliver_queues [OF f(2)] by blast
  have "HandleDatagram V pick deref cr s d = Done (with_flow r f' s1,
       qlog_if (s_qlog s) (\<lambda>q. DatagramPacketParsed
         (wire_packet q i d (word_of_nat (length d - n)))) @ es)"
    using assms(2) rf(1) f(1) f'(1) Len_fits [OF i] len
    by (simp add: HandleDatagram_def on_flow_def)
  moreover have "session_ok (with_flow r f' s1)"
    using found_ok [OF assms(1) rf(2)] f(1) f'(2) by (rule queues_put_ok)
  ultimately show thesis
    using rf f f'(2) by (intro that)
qed

lemma HandleDatagram_malformed:
  "vi_Parse V d = Inl e \<Longrightarrow>
     HandleDatagram V pick deref cr s d = s_close deref cr s ErrRoQPacketError ''invalid flow ID''"
  by (simp add: HandleDatagram_def closeWithError_def)

lemma HandleDatagram_ok:
  assumes "session_ok s"
  shows "\<exists>s' es. HandleDatagram V pick deref cr s d = Done (s', es) \<and> session_ok s'"
proof (cases "vi_Parse V d")
  case (Inl e)
  then show ?thesis
    using s_close_ok [OF assms, of deref cr ErrRoQPacketError "''invalid flow ID''"]
    by (auto simp: HandleDatagram_malformed)
next
  case (Inr x)
  obtain i n where p: "vi_Parse V d = Inr (i, n)"
    using Inr by (cases x) auto
  show ?thesis
    by (rule HandleDatagram_parsed [OF assms p]) blast
qed

section \<open>Streams\<close>

lemma HandleUniStreamWithFlowID_found:
  assumes "session_ok s"
  obtains r s1 es f f' rs' es2 where
    "receiveFlow s i = Done (r, s1, es)" "found s i r s1" "st_flow (s_rstore s1) r = Some f"
    "rf_ok [] f" "rf_id f = i" "readStream V pick f rs = Done (f', rs', es2)"
    "HandleUniStreamWithFlowID V pick s i rs = Done (with_flow r f' s1,
       qlog_if (s_qlog s) (\<lambda>q. StreamOpened i (word_of_int (rs_ID rs))) @ es @ es2)"
    "session_ok (with_flow r f' s1)"
proof -
  obtain r s1 es where rf: "receiveFlow s i = Done (r, s1, es)" "found s i r s1"
    using receiveFlow_ok assms session_okD(1) by blast
  obtain f where f: "st_flow (s_rstore s1) r = Some f" "rf_ok [] f" "rf_id f = i"
    using rf(2) by (rule found_flow)
  obtain f' rs' es2 where f': "readStream V pick f rs = Done (f', rs', es2)"
    "rf_ok [] f'" "rf_id f' = rf_id f" "rf_closed f' = rf_closed f"
    using readStream_ok [OF f(2)] by blast
  have "HandleUniStreamWithFlowID V pick s i rs = Done (with_flow r f' s1,
       qlog_if (s_qlog s) (\<lambda>q. StreamOpened i (word_of_int (rs_ID rs))) @ es @ es2)"
    using rf(1) f(1) f'(1) by (simp add: HandleUniStreamWithFlowID_def)
  moreover have "session_ok (with_flow r f' s1)"
    by (rule session_ok_put [OF found_ok [OF assms rf(2)] f(1) f'(2,3)]) (simp add: f'(4))
  ultimately show thesis
    using rf f f'(1) by (intro that)
qed

lemma HandleUniStreamWithFlowID_ok:
  assumes "session_ok s"
  shows "\<exists>s' es. HandleUniStreamWithFlowID V pick s i rs = Done (s', es) \<and> session_ok s'"
  by (rule HandleUniStreamWithFlowID_found [OF assms, of i pick rs]) blast

lemma handleUniStream_enc:
  assumes "fits62 i" and "rs_data rs = vi_enc V i @ rest"
  shows "handleUniStream V pick s rs = HandleUniStreamWithFlowID V pick s i (rs\<lparr>rs_data := rest\<rparr>)"
  using Read_enc [OF assms] by (simp add: handleUniStream_def)

lemma handleUniStream_ok:
  assumes "session_ok s"
  shows "\<exists>s' es. handleUniStream V pick s rs = Done (s', es) \<and> session_ok s'"
proof (cases "fst (vi_Read V rs)")
  case (Inl e)
  then show ?thesis
    using assms by (cases "vi_Read V rs") (simp add: handleUniStream_def)
next
  case (Inr i)
  then show ?thesis
    using HandleUniStreamWithFlowID_ok [OF assms]
    by (cases "vi_Read V rs") (simp add: handleUniStream_def)
qed

lemma receiveDatagrams_ok:
  assumes "session_ok s"
  shows "\<exists>e s' es. receiveDatagrams V pick deref cr ds s = Done (e, s', es) \<and> session_ok s'"
  using assms
proof (induction ds arbitrary: s)
  case Nil
  then show ?case by simp
next
  case (Cons d ds)
  show ?case
  proof (cases d)
    case (Inl e)
    then show ?thesis using Cons.prems by simp
  next
    case (Inr bs)
    obtain s1 es where s1: "HandleDatagram V pick deref cr s bs = Done (s1, es)" "session_ok s1"
      using HandleDatagram_ok [OF Cons.prems] by blast
    obtain e s2 es2 where "receiveDatagrams V pick deref cr ds s1 = Done (e, s2, es2)" "session_ok s2"
      using Cons.IH [OF s1(2)] by blast
    then show ?thesis using Inr s1(1) by simp
  qed
qed

end

section \<open>Registered flows\<close>

text \<open>A datagram for a registered flow.\<close>

lemma HandleDatagram_registered:
  assumes "quicvarint V" and "session_ok s" and "vi_Parse V d = Inr (i, n)"
    and "sm_get (s_receiveFlows s) i = Some r" and "st_flow (s_rstore s) r = Some f"
  obtains f' es where "HandleDatagram V pick deref cr s d = Done (with_flow r f' s, es)"
    and "queues f [drop (length (vi_enc V i)) d] f'" and "session_ok (with_flow r f' s)" and "rf_ok [] f"
proof -
  obtain r' s1 es f1 f' where h:
    "receiveFlow s i = Done (r', s1, es)" "found s i r' s1" "st_flow (s_rstore s1) r' = Some f1"
    "rf_ok [] f1" "rf_id f1 = i" "queues f1 [drop (length (vi_enc V i)) d] f'"
    "HandleDatagram V pick deref cr s d = Done (with_flow r' f' s1,
       qlog_if (s_qlog s) (\<lambda>q. DatagramPacketParsed (wire_packet q i d (word_of_nat (length d - n)))) @ es)"
    "session_ok (with_flow r' f' s1)"
    by (rule quicvarint.HandleDatagram_parsed [OF assms(1-3), of pick deref cr]) (rule that)
  have "r' = r" "s1 = s" "f1 = f"
    using receiveFlow_known(1) [OF session_okD(1) [OF assms(2)], of i r] assms(4,5) h(1,3) by auto
  with h(4,6,7,8) show thesis
    by (intro that) simp_all
qed

end
