(* ===== verification/Receive_Deadline.thy ===== *)
theory Receive_Deadline
  imports Read_Stream
begin

text \<open>
  The remaining operations of \<open>receive_flow.go\<close> keep a flow well-formed, with running calls holding
  buffers: \<open>SetReadDeadline\<close>, the timer's callback and the packet case of \<open>Read\<close>. Deadline channels
  are closed at most once, and a channel that is no longer current is closed.
\<close>

section \<open>Deadlines\<close>

lemma closed_iff_stale:
  assumes "deadline_ok f" and "c < rf_freshCh f"
  shows "Read_woken c f \<longleftrightarrow> c \<noteq> rf_deadlineCh f \<or> rf_deadlineExpired f"
  using assms by (auto simp: deadline_ok_def Read_woken_def)

text \<open>What an operation on deadlines leaves alone.\<close>

definition same_but_deadline :: "ReceiveFlow \<Rightarrow> ReceiveFlow \<Rightarrow> bool" where
  "same_but_deadline f f' \<longleftrightarrow>
     rf_id f' = rf_id f \<and> rf_closed f' = rf_closed f \<and> rf_ctxDone f' = rf_ctxDone f \<and>
     rf_streams f' = rf_streams f \<and> rf_heap f' = rf_heap f \<and> rf_buffer f' = rf_buffer f \<and>
     rf_pool f' = rf_pool f \<and> rf_fresh f' = rf_fresh f \<and> rf_qlog f' = rf_qlog f \<and>
     rf_logger f' = rf_logger f"

lemma same_but_deadline_fields:
  assumes "same_but_deadline f f'"
  shows "rf_id f' = rf_id f" "rf_closed f' = rf_closed f" "rf_ctxDone f' = rf_ctxDone f"
    "rf_streams f' = rf_streams f" "rf_packets f' = rf_packets f" "rf_cap f' = rf_cap f"
    "rf_heap f' = rf_heap f" "rf_buffer f' = rf_buffer f" "rf_pool f' = rf_pool f"
    "rf_fresh f' = rf_fresh f"
  using assms by (simp_all add: same_but_deadline_def rf_packets_def rf_cap_def)

lemma rf_ok_deadline:
  assumes "rf_ok H f" and "same_but_deadline f f'" and "deadline_ok f'"
  shows "rf_ok H f'"
  using assms(1,3) same_but_deadline_fields [OF assms(2)]
  by (simp add: rf_ok_def buffers_ok_def close_ok_def)

lemma expireDeadline_ok:
  assumes "rf_ok H f"
  shows "\<exists>f'. expireDeadline ch f = Done f' \<and> rf_ok H f' \<and> same_but_deadline f f' \<and>
    rf_deadlineCh f' = rf_deadlineCh f \<and> rf_freshCh f' = rf_freshCh f \<and>
    rf_deadlineExpired f' = (rf_deadlineExpired f \<or> ch = rf_deadlineCh f)"
proof (cases "rf_deadlineCh f \<noteq> ch \<or> rf_deadlineExpired f")
  case True
  then show ?thesis
    using assms by (auto simp: expireDeadline_def same_but_deadline_def)
next
  case False
  define f' where "f' = f\<lparr>rf_deadlineExpired := True, rf_closedChs := ch # rf_closedChs f\<rparr>"
  have d: "deadline_ok f"
    using assms by (rule rf_okD)
  have same: "same_but_deadline f f'"
    by (simp add: same_but_deadline_def f'_def)
  have "expireDeadline ch f = Done f'"
    using False d by (auto simp: expireDeadline_def close_deadlineCh_def deadline_ok_def f'_def)
  moreover have "deadline_ok f'"
    using False d by (auto simp: deadline_ok_def f'_def)
  ultimately show ?thesis
    using rf_ok_deadline [OF assms same] same False by (simp add: f'_def)
qed

text \<open>
  \<open>SetReadDeadline\<close> never closes a channel twice. The previous channel is closed afterwards, and the
  deadline has expired exactly if it is not in the future.
\<close>

lemma SetReadDeadline_ok:
  assumes "rf_ok H f"
  shows "\<exists>f'. SetReadDeadline t f = Done f' \<and> rf_ok H f' \<and> same_but_deadline f f' \<and>
    rf_deadlineCh f' = rf_freshCh f \<and> rf_freshCh f' = Suc (rf_freshCh f) \<and>
    rf_deadlineExpired f' = (\<exists>d. t = Some d \<and> d \<le> 0) \<and>
    rf_deadlineTimer f' = (if \<exists>d. t = Some d \<and> 0 < d then Some (rf_freshCh f) else None)"
proof -
  define C where "C = (if rf_deadlineExpired f then rf_closedChs f else rf_deadlineCh f # rf_closedChs f)"
  define f2 where "f2 = f\<lparr>rf_deadlineTimer := None, rf_closedChs := C,
    rf_deadlineCh := rf_freshCh f, rf_freshCh := Suc (rf_freshCh f), rf_deadlineExpired := False\<rparr>"
  have d: "deadline_ok f"
    using assms by (rule rf_okD)
  then have cur: "\<not> rf_deadlineExpired f \<Longrightarrow> rf_deadlineCh f \<notin> set (rf_closedChs f)"
    by (simp add: deadline_ok_def)
  have eq: "SetReadDeadline t f =
      (case t of
         None \<Rightarrow> Done f2
       | Some d \<Rightarrow> if d \<le> 0 then expireDeadline (rf_deadlineCh f2) f2
                   else Done (f2\<lparr>rf_deadlineTimer := Some (rf_deadlineCh f2)\<rparr>))"
    using cur by (simp add: SetReadDeadline_def close_deadlineCh_def f2_def C_def split: option.split)
  have d2: "deadline_ok f2"
  proof -
    have "set C = {c. c < rf_freshCh f}"
      using d unfolding C_def deadline_ok_def by (cases "rf_deadlineExpired f") auto
    then show ?thesis
      unfolding deadline_ok_def f2_def by (simp add: less_Suc_eq) blast
  qed
  have same: "same_but_deadline f f2"
    by (simp add: same_but_deadline_def f2_def)
  have ok2: "rf_ok H f2"
    using assms same d2 by (rule rf_ok_deadline)
  have f2: "rf_deadlineCh f2 = rf_freshCh f" "rf_freshCh f2 = Suc (rf_freshCh f)"
    "\<not> rf_deadlineExpired f2" "rf_deadlineTimer f2 = None"
    by (simp_all add: f2_def)
  consider (clear) "t = None" | (past) d where "t = Some d" "d \<le> 0" | (future) d where "t = Some d" "0 < d"
    by (cases t) force+
  then show ?thesis
  proof cases
    case clear
    then show ?thesis using eq ok2 same f2 by simp
  next
    case future
    define f3 where "f3 = f2\<lparr>rf_deadlineTimer := Some (rf_deadlineCh f2)\<rparr>"
    have "same_but_deadline f f3"
      by (simp add: same_but_deadline_def f3_def f2_def)
    moreover from this have "rf_ok H f3"
      by (rule rf_ok_deadline [OF assms]) (use d2 in \<open>simp add: deadline_ok_def f3_def\<close>)
    ultimately show ?thesis
      using eq future f2 by (simp add: f3_def)
  next
    case past
    obtain f3 where f3: "expireDeadline (rf_deadlineCh f2) f2 = Done f3" "rf_ok H f3"
      "rf_deadlineCh f3 = rf_deadlineCh f2" "rf_freshCh f3 = rf_freshCh f2" "rf_deadlineExpired f3"
      using expireDeadline_ok [OF ok2] by blast
    have "f3 = f2\<lparr>rf_deadlineExpired := True, rf_closedChs := rf_deadlineCh f2 # rf_closedChs f2\<rparr>"
      using f3(1) f2(3) by (auto simp: expireDeadline_def close_deadlineCh_def split: if_splits)
    then have "same_but_deadline f f3" and "rf_deadlineTimer f3 = None"
      by (simp_all add: same_but_deadline_def f2_def)
    then show ?thesis
      using eq past f3 f2 by simp
  qed
qed

section \<open>Reading beside other calls\<close>

lemma Read_packet_ok:
  assumes "rf_ok H f" and "Read_packet blen f = Some (res, f')"
  shows "rf_ok H f'" and "same_but_buffers f f'" and "rf_heap f' = rf_heap f"
    and "rf_packets f' = tl (rf_packets f)"
    and "rf_packets f = p # ps \<Longrightarrow>
      res = (if blen < length p then (0, Some io_ErrShortBuffer, []) else (int (length p), None, p))"
    and "rf_packets f = [] \<Longrightarrow> rf_closed f \<and> res = (0, Some context_Canceled, []) \<and> f' = f"
proof -
  consider (got) b bs where "ch_queue (rf_buffer f) = b # bs"
      "f' = pool_Put b (f\<lparr>rf_buffer := (rf_buffer f)\<lparr>ch_queue := bs\<rparr>\<rparr>)"
      "res = (if blen < length (rf_heap f b) then (0, Some io_ErrShortBuffer, [])
              else (int (length (rf_heap f b)), None, rf_heap f b))"
    | (closed) "ch_queue (rf_buffer f) = []" "ch_closed (rf_buffer f)" "f' = f" "res = (0, ctx_Err f, [])"
    using assms(2)
    by (cases "ch_queue (rf_buffer f)")
      (auto simp: Read_packet_def chan_recv_def copyPacket_def Let_def split: if_splits)
  then have "rf_ok H f' \<and> same_but_buffers f f' \<and> rf_heap f' = rf_heap f \<and>
    rf_packets f' = tl (rf_packets f) \<and>
    (rf_packets f = p # ps \<longrightarrow>
      res = (if blen < length p then (0, Some io_ErrShortBuffer, []) else (int (length p), None, p))) \<and>
    (rf_packets f = [] \<longrightarrow> rf_closed f \<and> res = (0, Some context_Canceled, []) \<and> f' = f)"
  proof cases
    case got
    have same: "same_but_buffers f f'"
      by (simp add: got(2) pool_Put_def same_but_buffers_def)
    have "buffers_ok H f'"
      using assms(1) got(1)
      by (auto simp: got(2) pool_Put_def rf_ok_def buffers_ok_def chan_ok_def)
    then have "rf_ok H f'"
      using rf_ok_same [OF assms(1) same] by simp
    with same show ?thesis
      using got by (auto simp: pool_Put_def rf_packets_def)
  next
    case closed
    then have "rf_closed f" and "rf_ctxDone f"
      using assms(1) by (simp_all add: rf_ok_def buffers_ok_def close_ok_def)
    with closed show ?thesis
      using assms(1) by (simp add: rf_packets_def ctx_Err_def)
  qed
  then show "rf_ok H f'" "same_but_buffers f f'" "rf_heap f' = rf_heap f"
    "rf_packets f' = tl (rf_packets f)"
    "rf_packets f = p # ps \<Longrightarrow>
      res = (if blen < length p then (0, Some io_ErrShortBuffer, []) else (int (length p), None, p))"
    "rf_packets f = [] \<Longrightarrow> rf_closed f \<and> res = (0, Some context_Canceled, []) \<and> f' = f"
    by simp_all
qed

lemma Read_ok:
  assumes "rf_ok [] f" and "Read blen f = Some (res, f')"
  shows "rf_ok [] f'" and "rf_id f' = rf_id f" and "rf_closed f' = rf_closed f"
proof -
  consider "f' = f" | "Read_packet blen f = Some (res, f')"
    using assms(2) by (auto simp: Read_def Read_begin_def split: if_splits)
  then have "rf_ok [] f' \<and> rf_id f' = rf_id f \<and> rf_closed f' = rf_closed f"
  proof cases
    case 1
    with assms(1) show ?thesis by simp
  next
    case 2
    then show ?thesis
      using Read_packet_ok(1,2) [OF assms(1) 2] by (simp add: same_but_buffers_def)
  qed
  then show "rf_ok [] f'" "rf_id f' = rf_id f" "rf_closed f' = rf_closed f"
    by simp_all
qed

section \<open>Properties\<close>

text \<open>C23: \<open>SetReadDeadline\<close> never panics, wakes every reader that waits on the previous deadline, keeps
  the queued packets, and from then on \<open>Read\<close> fails at once exactly if the new deadline is not in the
  future, even if an earlier deadline had expired or packets are queued; the timers of earlier
  deadlines have no effect any more.\<close>

theorem set_read_deadline:
  assumes "rf_ok [] f"
  shows "\<exists>f'. SetReadDeadline t f = Done f' \<and> rf_ok [] f' \<and> rf_packets f' = rf_packets f \<and>
    Read_woken (rf_deadlineCh f) f' \<and>
    ((\<exists>d. t = Some d \<and> d \<le> 0) \<longleftrightarrow> Read_begin f' = RDone (0, Some os_ErrDeadlineExceeded, [])) \<and>
    (\<forall>ch. ch < rf_freshCh f \<longrightarrow> expireDeadline ch f' = Done f')"
proof -
  obtain f' where f': "SetReadDeadline t f = Done f'" "rf_ok [] f'" "same_but_deadline f f'"
    "rf_deadlineCh f' = rf_freshCh f" "rf_freshCh f' = Suc (rf_freshCh f)"
    "rf_deadlineExpired f' = (\<exists>d. t = Some d \<and> d \<le> 0)"
    using SetReadDeadline_ok [OF assms, of t] by blast
  have "rf_deadlineCh f < rf_freshCh f"
    using assms by (simp add: rf_ok_def deadline_ok_def)
  then have "Read_woken (rf_deadlineCh f) f'"
    using closed_iff_stale [of f' "rf_deadlineCh f"] f'(2,4,5) by (simp add: rf_ok_def)
  then show ?thesis
    using f' same_but_deadline_fields(5) [OF f'(3)]
    by (auto simp: Read_begin_def expireDeadline_def)
qed

theorem set_read_deadline_witness:
  "\<exists>f f'. newReceiveFlow 7 2 None None = Done f \<and> SetReadDeadline (Some (- 1)) f = Done f' \<and>
     Read_begin f' = RDone (0, Some os_ErrDeadlineExceeded, [])"
proof -
  obtain f where f: "newReceiveFlow 7 2 None None = Done f"
    by (simp add: newReceiveFlow_def)
  from set_read_deadline [OF rf_ok_new [OF f], of "Some (- 1)"] f show ?thesis
    by auto
qed

end
