(* ===== verification/Session_Runs.thy ===== *)
theory Session_Runs
  imports Session_Receive Receive_Deadline
begin

text \<open>
  Sessions as a state machine: the calls an application, the receive loops and the timers make, in
  any order and number, each run to its end. Every reachable session is well-formed and no call of
  it panics.
\<close>

section \<open>The calls\<close>

datatype session_op =
  OpNewSendFlow u64
| OpNewSendStream nat "32 word" bool "goerror + (int \<times> bool)" nat
| OpSendFlowClose nat
| OpNewReceiveFlow u64
| OpRead nat nat
| OpSetReadDeadline nat "int option"
| OpTimer nat nat
| OpReceiveFlowClose nat
| OpDatagram "byte list"
| OpStream ReceiveStream
| OpStreamWithFlowID u64 ReceiveStream
| OpClose

text \<open>What does not belong to the session: the pool's choices, the streams, the connection's results.\<close>

record outside =
  out_pick :: pool_pick
  out_deref :: "nat \<Rightarrow> RTPSendStream"
  out_close :: close_results

text \<open>The flow after a call of \<open>Read\<close> that does not wait.\<close>

definition after_Read :: "nat \<Rightarrow> ReceiveFlow \<Rightarrow> ReceiveFlow" where
  "after_Read n f = (case Read n f of None \<Rightarrow> f | Some (_, f') \<Rightarrow> f')"

definition run_op :: "varint_lib \<Rightarrow> outside \<Rightarrow> session_op \<Rightarrow> Session \<Rightarrow> (Session \<times> effect list) outcome" where
  "run_op V w op s =
     (case op of
        OpNewSendFlow i \<Rightarrow> bind_outcome (NewSendFlow V s i) (\<lambda>(_, s'). Done (s', []))
      | OpNewSendStream ref prio inc res sref \<Rightarrow>
          (case ss_flow (s_sstore s) ref of
             None \<Rightarrow> Panic ''nil pointer dereference''
           | Some f \<Rightarrow>
               (case NewSendStream f prio inc res sref of (_, f', es) \<Rightarrow>
                  Done (s\<lparr>s_sstore := (s_sstore s)\<lparr>ss_flow := (ss_flow (s_sstore s))(ref \<mapsto> f')\<rparr>\<rparr>, es)))
      | OpSendFlowClose ref \<Rightarrow>
          (case close_send_flow (out_deref w) (cr_stream (out_close w)) ref s of (_, s', es) \<Rightarrow> Done (s', es))
      | OpNewReceiveFlow i \<Rightarrow> bind_outcome (NewReceiveFlow s i) (\<lambda>(_, s'). Done (s', []))
      | OpRead r n \<Rightarrow>
          bind_outcome (on_flow r (\<lambda>f. Done (after_Read n f)) s) (\<lambda>s'. Done (s', []))
      | OpSetReadDeadline r t \<Rightarrow> bind_outcome (on_flow r (SetReadDeadline t) s) (\<lambda>s'. Done (s', []))
      | OpTimer r ch \<Rightarrow> bind_outcome (on_flow r (expireDeadline ch) s) (\<lambda>s'. Done (s', []))
      | OpReceiveFlowClose r \<Rightarrow> close_receive_flow r s
      | OpDatagram d \<Rightarrow> HandleDatagram V (out_pick w) (out_deref w) (out_close w) s d
      | OpStream rs \<Rightarrow> handleUniStream V (out_pick w) s rs
      | OpStreamWithFlowID i rs \<Rightarrow> HandleUniStreamWithFlowID V (out_pick w) s i rs
      | OpClose \<Rightarrow> bind_outcome (Session_Close (out_deref w) (out_close w) s) (\<lambda>(_, s', es). Done (s', es)))"

text \<open>
  What a caller has to respect: flows are used by references the session handed out, and send flows
  have IDs of 62 bits.
\<close>

fun op_ok :: "Session \<Rightarrow> session_op \<Rightarrow> bool" where
  "op_ok s (OpNewSendFlow i) = fits62 i"
| "op_ok s (OpNewSendStream ref prio inc res sref) = (ss_flow (s_sstore s) ref \<noteq> None)"
| "op_ok s (OpRead r n) = (st_flow (s_rstore s) r \<noteq> None)"
| "op_ok s (OpSetReadDeadline r t) = (st_flow (s_rstore s) r \<noteq> None)"
| "op_ok s (OpTimer r ch) = (st_flow (s_rstore s) r \<noteq> None)"
| "op_ok s _ = True"

inductive session_reach :: "varint_lib \<Rightarrow> Session \<Rightarrow> bool" for V where
  new: "NewSession conn accept opts = Inr s \<Longrightarrow> (\<And>opt. Some opt \<in> set opts \<Longrightarrow> library_option opt) \<Longrightarrow>
    session_reach V s"
| new_app: "NewSessionWithAppHandledConn conn accept opts = Inr s \<Longrightarrow>
    (\<And>opt. Some opt \<in> set opts \<Longrightarrow> library_option opt) \<Longrightarrow> session_reach V s"
| step: "session_reach V s \<Longrightarrow> op_ok s op \<Longrightarrow> run_op V w op s = Done (s', es) \<Longrightarrow> session_reach V s'"

section \<open>Every call keeps the session well-formed\<close>

lemma newSession_ok:
  assumes "config_ok c"
  shows "session_ok (newSession conn accept c)" and "session_ok (start (newSession conn accept c))"
  using assms
  by (auto simp: newSession_def start_def session_ok_def recv_ok_def send_ok_def closed_ok_def
      config_ok_def roq_inv sm_get_new store_ok_def st_empty_def
      newReceiveFlowBuffer_def rfb_ok_def)

lemma newSessionConfig_ok:
  assumes "newSessionConfig opts = Inr c" and "\<And>opt. Some opt \<in> set opts \<Longrightarrow> library_option opt"
  shows "config_ok c"
  using apply_options_library [OF config_ok_default assms(2), of opts] assms(1)
  by (simp add: newSessionConfig_def)

lemma session_init_ok:
  assumes "NewSession conn accept opts = Inr s \<or> NewSessionWithAppHandledConn conn accept opts = Inr s"
    and "\<And>opt. Some opt \<in> set opts \<Longrightarrow> library_option opt"
  shows "session_ok s"
  using assms(1) newSession_ok newSessionConfig_ok [OF _ assms(2)]
  by (auto simp: NewSession_def NewSessionWithAppHandledConn_def split: option.splits sum.splits)

text \<open>The send side.\<close>

lemma session_ok_send:
  assumes "session_ok s" and "ss_next st = ss_next (s_sstore s)"
    and "\<And>ref. ss_flow st ref = None \<longleftrightarrow> ss_flow (s_sstore s) ref = None"
    and "sm_ok m" and "\<And>i ref. sm_get m i = Some ref \<Longrightarrow> sm_get (s_sendFlows s) i = Some ref"
    and "\<And>i ref f. sm_get m i = Some ref \<Longrightarrow> ss_flow (s_sstore s) ref = Some f \<Longrightarrow>
      \<exists>f'. ss_flow st ref = Some f' \<and> sf_id f' = sf_id f \<and> sf_closedErr f' = sf_closedErr f"
  shows "session_ok (s\<lparr>s_sendFlows := m, s_sstore := st\<rparr>)"
proof -
  have send: "send_ok s"
    using assms(1) by (rule session_okD)
  have "send_ok (s\<lparr>s_sendFlows := m, s_sstore := st\<rparr>)"
    unfolding send_ok_def
  proof (intro conjI allI impI)
    fix ref f
    assume "ss_flow (s_sstore (s\<lparr>s_sendFlows := m, s_sstore := st\<rparr>)) ref = Some f"
    then obtain f0 where "ss_flow (s_sstore s) ref = Some f0"
      using assms(3) [of ref] by auto
    then show "ref < ss_next (s_sstore (s\<lparr>s_sendFlows := m, s_sstore := st\<rparr>))"
      using send assms(2) by (auto simp: send_ok_def)
  next
    fix i ref
    assume "sm_get (s_sendFlows (s\<lparr>s_sendFlows := m, s_sstore := st\<rparr>)) i = Some ref"
    then have m: "sm_get m i = Some ref"
      by simp
    then obtain f where "ss_flow (s_sstore s) ref = Some f" "sf_id f = i" "sf_closedErr f = None"
      using send assms(5) by (force simp: send_ok_def)
    then show "\<exists>f. ss_flow (s_sstore (s\<lparr>s_sendFlows := m, s_sstore := st\<rparr>)) ref = Some f \<and>
        sf_id f = i \<and> sf_closedErr f = None"
      using assms(6) [OF m] by force
  qed (use assms(4) in simp)
  moreover have "sm_get m i = None" if "sm_get (s_sendFlows s) i = None" for i
    using assms(5) [of i] that by (cases "sm_get m i") auto
  ultimately show ?thesis
    using assms(1) by (simp add: session_ok_def recv_ok_def closed_ok_def)
qed

lemma close_send_flow_ok:
  assumes "session_ok s" and "close_send_flow deref ce ref s = (e, s', es)"
  shows "session_ok s'"
proof (cases "ss_flow (s_sstore s) ref")
  case None
  then show ?thesis
    using assms by (simp add: close_send_flow_def)
next
  case (Some f)
  have "sm_ok (s_sendFlows s)"
    using assms(1) by (simp add: session_ok_def send_ok_def)
  moreover have "sf_id g = i" if "sm_get (s_sendFlows s) i = Some q" "ss_flow (s_sstore s) q = Some g" for i q g
    using assms(1) that by (force simp: session_ok_def send_ok_def)
  ultimately have "session_ok (s\<lparr>s_sendFlows := sm_delete (sf_id f) (s_sendFlows s),
      s_sstore := mark_closed {ref} (s_sstore s)\<rparr>)"
    using Some
    by (intro session_ok_send [OF assms(1)])
      (auto simp: mark_closed_def roq_inv sm_get_delete split: if_splits)
  then show ?thesis
    using assms(2) close_send_flow_eq [OF Some] by simp
qed

lemma NewSendStream_flow:
  assumes "NewSendStream f prio inc res sref = (r, f', es)"
  shows "sf_id f' = sf_id f" and "sf_closedErr f' = sf_closedErr f"
  using assms
  by (auto simp: NewSendStream_def NewSendStream_append_def Let_def split: option.splits sum.splits)

lemma new_send_stream_ok:
  assumes "session_ok s" and "ss_flow (s_sstore s) ref = Some f" and "sf_id f' = sf_id f"
    and "sf_closedErr f' = sf_closedErr f"
  shows "session_ok (s\<lparr>s_sstore := (s_sstore s)\<lparr>ss_flow := (ss_flow (s_sstore s))(ref \<mapsto> f')\<rparr>\<rparr>)"
proof -
  have "sm_ok (s_sendFlows s)"
    using assms(1) by (simp add: session_ok_def send_ok_def)
  then have "session_ok (s\<lparr>s_sendFlows := s_sendFlows s,
      s_sstore := (s_sstore s)\<lparr>ss_flow := (ss_flow (s_sstore s))(ref \<mapsto> f')\<rparr>\<rparr>)"
    using assms(2-4) by (intro session_ok_send [OF assms(1)]) (auto split: if_splits)
  then show ?thesis by simp
qed

text \<open>The receive side.\<close>

lemma on_flow_ok:
  assumes "session_ok s" and "st_flow (s_rstore s) r \<noteq> None"
    and "\<And>f. rf_ok [] f \<Longrightarrow> \<exists>f'. op f = Done f' \<and> rf_ok [] f' \<and> rf_id f' = rf_id f \<and> rf_closed f' = rf_closed f"
  shows "\<exists>s'. on_flow r op s = Done s' \<and> session_ok s'"
proof -
  obtain f where f: "st_flow (s_rstore s) r = Some f"
    using assms(2) by auto
  then have "rf_ok [] f"
    using assms(1) by (simp add: session_ok_def recv_ok_def store_ok_def)
  then obtain f' where f': "op f = Done f'" "rf_ok [] f'" "rf_id f' = rf_id f" "rf_closed f' = rf_closed f"
    using assms(3) by blast
  have "session_ok (with_flow r f' s)"
    by (rule session_ok_put [OF assms(1) f f'(2,3)]) (simp add: f'(4))
  then show ?thesis
    using f f'(1) by (simp add: on_flow_def)
qed

lemma read_flow_ok:
  assumes "rf_ok [] f"
  shows "rf_ok [] (after_Read n f)" and "rf_id (after_Read n f) = rf_id f"
    and "rf_closed (after_Read n f) = rf_closed f"
proof -
  have "rf_ok [] (after_Read n f) \<and> rf_id (after_Read n f) = rf_id f \<and>
      rf_closed (after_Read n f) = rf_closed f"
  proof (cases "Read n f")
    case None
    then show ?thesis
      using assms by (simp add: after_Read_def)
  next
    case (Some x)
    obtain res f' where r: "Read n f = Some (res, f')"
      using Some by (cases x) simp
    then show ?thesis
      using Read_ok [OF assms r] by (simp add: after_Read_def)
  qed
  then show "rf_ok [] (after_Read n f)" "rf_id (after_Read n f) = rf_id f"
    "rf_closed (after_Read n f) = rf_closed f"
    by simp_all
qed

lemma close_receive_flow_ok:
  assumes "session_ok s"
  shows "\<exists>s' es. close_receive_flow r s = Done (s', es) \<and> session_ok s'"
proof -
  have st: "store_ok (s_rstore s)"
    using assms by (simp add: session_ok_def recv_ok_def)
  have "session_ok (s\<lparr>s_rstore := close_flows {r} (s_rstore s)\<rparr>)"
  proof -
    have "recv_ok (s\<lparr>s_rstore := close_flows {r} (s_rstore s)\<rparr>)"
      using assms by (simp add: session_ok_def recv_ok_def roq_inv)
    moreover have "rf_closed f" if "s_closedErr s \<noteq> None" "sm_get (s_receiveFlows s) i = Some q"
      "st_flow (close_flows {r} (s_rstore s)) q = Some f" for i q f
      using assms that by (auto simp: session_ok_def closed_ok_def close_flows_def split: if_splits)
    ultimately show ?thesis
      using assms by (simp add: session_ok_def send_ok_def closed_ok_def)
  qed
  then show ?thesis
    using close_receive_flow_eq [OF st] by simp
qed

lemma Session_Close_ok:
  assumes "session_ok s"
  shows "\<exists>e s' es. Session_Close deref cr s = Done (e, s', es) \<and> session_ok s'"
proof -
  obtain s1 es where s1: "s_close deref cr s ErrRoQNoError '''' = Done (s1, es)" "session_ok s1"
    using s_close_ok [OF assms] by blast
  moreover have "session_ok (s1\<lparr>s_qlogClosed := True\<rparr>)"
    using s1(2) by (simp add: session_ok_def recv_ok_def send_ok_def closed_ok_def)
  ultimately show ?thesis
    by (simp add: Session_Close_def Close_finish_def split: option.split)
qed

context quicvarint
begin

lemma run_op_ok:
  assumes "session_ok s" and "op_ok s op"
  shows "\<exists>s' es. run_op V w op s = Done (s', es) \<and> session_ok s'"
proof (cases op)
  case (OpNewSendFlow i)
  then show ?thesis
    using NewSendFlow_ok [OF assms(1)] assms(2) by (force simp: run_op_def)
next
  case (OpNewSendStream ref prio inc res sref)
  then obtain f where f: "ss_flow (s_sstore s) ref = Some f"
    using assms(2) by auto
  obtain r f' es where n: "NewSendStream f prio inc res sref = (r, f', es)"
    by (cases "NewSendStream f prio inc res sref")
  show ?thesis
    using new_send_stream_ok [OF assms(1) f NewSendStream_flow [OF n]] f n OpNewSendStream
    by (simp add: run_op_def)
next
  case (OpSendFlowClose ref)
  obtain e s' es where c: "close_send_flow (out_deref w) (cr_stream (out_close w)) ref s = (e, s', es)"
    by (cases "close_send_flow (out_deref w) (cr_stream (out_close w)) ref s")
  show ?thesis
    using close_send_flow_ok [OF assms(1) c] c OpSendFlowClose by (simp add: run_op_def)
next
  case (OpNewReceiveFlow i)
  then show ?thesis
    using NewReceiveFlow_ok [OF assms(1), of i] by (force simp: run_op_def)
next
  case (OpRead r n)
  have "\<exists>s'. on_flow r (\<lambda>f. Done (after_Read n f)) s = Done s' \<and> session_ok s'"
    using assms(2) OpRead by (intro on_flow_ok [OF assms(1)]) (simp_all add: read_flow_ok)
  then show ?thesis
    using OpRead by (force simp: run_op_def)
next
  case (OpSetReadDeadline r t)
  have "\<exists>s'. on_flow r (SetReadDeadline t) s = Done s' \<and> session_ok s'"
    using assms(2) OpSetReadDeadline SetReadDeadline_ok [of "[]" _ t]
    by (intro on_flow_ok [OF assms(1)]) (auto dest: same_but_deadline_fields(1,2) simp: same_but_deadline_def)
  then show ?thesis
    using OpSetReadDeadline by (force simp: run_op_def)
next
  case (OpTimer r ch)
  have "\<exists>s'. on_flow r (expireDeadline ch) s = Done s' \<and> session_ok s'"
    using assms(2) OpTimer expireDeadline_ok [of "[]" _ ch]
    by (intro on_flow_ok [OF assms(1)]) (auto simp: same_but_deadline_def)
  then show ?thesis
    using OpTimer by (force simp: run_op_def)
next
  case (OpReceiveFlowClose r)
  then show ?thesis
    using close_receive_flow_ok [OF assms(1)] by (simp add: run_op_def)
next
  case (OpDatagram d)
  then show ?thesis
    using HandleDatagram_ok [OF assms(1)] by (simp add: run_op_def)
next
  case (OpStream rs)
  then show ?thesis
    using handleUniStream_ok [OF assms(1)] by (simp add: run_op_def)
next
  case (OpStreamWithFlowID i rs)
  then show ?thesis
    using HandleUniStreamWithFlowID_ok [OF assms(1)] by (simp add: run_op_def)
next
  case OpClose
  then show ?thesis
    using Session_Close_ok [OF assms(1), of "out_deref w" "out_close w"] by (force simp: run_op_def)
qed

lemma session_reach_ok: "session_reach V s \<Longrightarrow> session_ok s"
proof (induction rule: session_reach.induct)
  case (step s op w s' es)
  then show ?case
    using run_op_ok [OF step.IH step.hyps(2), of w] by simp
qed (blast intro: session_init_ok)+

end

section \<open>Sample sessions\<close>

text \<open>A new session with room for two packets per flow, and the same with flow 7 registered.\<close>

definition sample :: Session where
  "sample = newSession \<lparr>conn_QlogTrace = None\<rparr> True (default_config\<lparr>receiveBufferSize := 2\<rparr>)"

definition sample7 :: Session where
  "sample7 = (case NewReceiveFlow sample 7 of Done (_, s) \<Rightarrow> s | Panic _ \<Rightarrow> sample)"

lemma sample_ok: "session_ok sample"
  unfolding sample_def by (rule newSession_ok) (simp add: config_ok_def default_config_def
    defaultReceiveBufferSize_def defaultUnknownFlowBufferSize_def)

lemmas sample_eval = sample_def newSession_def default_config_def newQlogger_def Let_def
  newReceiveFlowBuffer_def st_empty_def newSyncMap_def

lemma sample_fields:
  "s_closedErr sample = None" "sm_get (s_receiveFlows sample) i = None" "s_qlog sample = None"
  "sm_get (s_sendFlows sample) i = None" "map_of (rfb_buffer (s_receiveFlowBuffer sample)) i = None"
  "s_receiveBufferSize sample = 2" "st_next (s_rstore sample) = 0" "elements (s_sendFlows sample) = []"
  "elements (s_receiveFlows sample) = []" "ss_next (s_sstore sample) = 0" "maxLen (s_receiveFlowBuffer sample) = 16"
  "rfb_queue (s_receiveFlowBuffer sample) = []"
  by (simp_all add: sample_eval sm_get_def defaultUnknownFlowBufferSize_def)

lemma sample7_eq: "NewReceiveFlow sample 7 = Done (Inr 0, sample7)"
  unfolding sample7_def
  by (simp add: NewReceiveFlow_def isClosed_def sample_fields NewReceiveFlow_locked_def pop_def
      newReceiveFlow_def st_alloc_def)

lemma sample7_ok: "session_ok sample7"
  using NewReceiveFlow_ok [OF sample_ok, of 7] sample7_eq by simp

lemma sample7_flow:
  obtains f where "sm_get (s_receiveFlows sample7) 7 = Some 0" "st_flow (s_rstore sample7) 0 = Some f"
    "newReceiveFlow 7 2 None (Some (s_logger sample)) = Done f" "s_closedErr sample7 = None"
    "elements (s_receiveFlows sample7) = [(7, 0)]" "elements (s_sendFlows sample7) = []"
proof -
  obtain f where f: "newReceiveFlow 7 2 None (Some (s_logger sample)) = Done f"
    by (simp add: newReceiveFlow_def)
  have eq: "sample7 = sample\<lparr>s_receiveFlowBuffer := (s_receiveFlowBuffer sample)\<lparr>rfb_queue := []\<rparr>,
      s_rstore := snd (st_alloc f (s_rstore sample)), s_receiveFlows := sm_set 7 0 (s_receiveFlows sample)\<rparr>"
    unfolding sample7_def
    by (simp add: NewReceiveFlow_def isClosed_def sample_fields NewReceiveFlow_locked_def pop_def f
        st_alloc_def)
  show thesis
    by (rule that [OF _ _ f])
      (simp_all add: eq sample_fields sm_get_update st_alloc_def, simp add: sm_set_def sample_fields)
qed

text \<open>An environment without streams whose calls succeed, and a pool that is always empty.\<close>

definition sample_world :: outside where
  "sample_world = \<lparr>out_pick = (\<lambda>_. None), out_deref = (\<lambda>_. newRTPSendStream 0 0 [] None),
                   out_close = \<lparr>cr_stream = (\<lambda>_. None), cr_conn = None\<rparr>\<rparr>"

end
