(* ===== verification/Session_Lifecycle.thy ===== *)
theory Session_Lifecycle
  imports Session_Runs
begin

text \<open>
  The goroutines of a session, interleaved. \<open>start\<close> runs the receive loops, \<open>receiveUniStreams\<close> spawns a
  goroutine per stream, and the application calls \<open>Close\<close>, \<open>NewSendFlow\<close>, \<open>NewReceiveFlow\<close> and the
  handlers while they run. A step is one critical section, or one call that waits: the check of
  \<open>isClosed\<close> and the work behind it are separate steps, and so are the parts of \<open>close\<close>, which holds
  the session's mutex but not the locks of the flow maps. Shown here: no interleaving panics, the
  wait group counts the running goroutines, and the qlog recorder is closed when they are gone.
\<close>

section \<open>Goroutines\<close>

text \<open>Where a goroutine is in \<open>close\<close>.\<close>

datatype close_pc =
    AtLock
  | AtSendSnapshot
  | AtSend "(u64 \<times> nat) list"
  | AtReceiveSnapshot
  | AtReceive "(u64 \<times> nat) list"
  | AtConn
  | AtCancel

text \<open>Who called \<open>close\<close>: a malformed datagram, or \<open>Close\<close>.\<close>

datatype after = LoopAgain | WaitForLoops

datatype pc =
    ReceivingDatagram
  | HandlingDatagram "byte list"
  | PushingPacket nat "byte list"
  | AcceptingStream
  | ReadingFlowID ReceiveStream
  | LookingUpFlow u64 ReceiveStream
  | Registering nat ReceiveStream
  | ReadingFrames nat ReceiveStream
  | Unregistering nat ReceiveStream
  | Exited
  | Closing close_pc u64 string after
  | Waiting
  | Finishing
  | CloseReturned "goerror option"
  | NewReceive u64
  | NewReceiveLocked u64
  | NewSend u64
  | NewSendUnlocked u64
  | GotFlow "goerror + nat"

text \<open>A goroutine; the session's wait group counts those the session started.\<close>

record goroutine =
  g_counted :: bool
  g_pc :: pc

text \<open>
  A running session: the session, its goroutines and calls by index, the holder of its mutex, and
  the connection: what arrived and was not taken yet, and whether it was closed.
\<close>

record sys =
  sy_session :: Session
  sy_threads :: "goroutine list"
  sy_mutex :: "nat option"
  sy_dgrams :: "byte list list"
  sy_streams :: "ReceiveStream list"
  sy_connClosed :: bool
  sy_trace :: "effect list"

section \<open>Steps of one goroutine\<close>

text \<open>Where \<open>HandleDatagram\<close> returns to: the receive loop, or the application.\<close>

definition handled :: "bool \<Rightarrow> pc" where
  "handled counted = (if counted then ReceivingDatagram else Exited)"

definition after_close :: "bool \<Rightarrow> after \<Rightarrow> pc" where
  "after_close counted k = (case k of LoopAgain \<Rightarrow> handled counted | WaitForLoops \<Rightarrow> Waiting)"

fun is_local :: "pc \<Rightarrow> bool" where
  "is_local (HandlingDatagram d) = True"
| "is_local (PushingPacket r p) = True"
| "is_local (LookingUpFlow i rs) = True"
| "is_local (Registering r rs) = True"
| "is_local (Unregistering r rs) = True"
| "is_local (NewReceiveLocked i) = True"
| "is_local (NewSendUnlocked i) = True"
| "is_local _ = False"

text \<open>\<open>HandleDatagram\<close> up to the lookup of the flow.\<close>

definition HandleDatagram_lookup ::
  "varint_lib \<Rightarrow> Session \<Rightarrow> byte list \<Rightarrow> (pc \<times> Session \<times> effect list) outcome" where
  "HandleDatagram_lookup V s d =
     (case vi_Parse V d of
        Inl e \<Rightarrow> Done (Closing AtLock ErrRoQPacketError ''invalid flow ID'' LoopAgain, s, [])
      | Inr (flowID, n) \<Rightarrow>
          (let ev = qlog_if (s_qlog s) (\<lambda>q.
                 DatagramPacketParsed (wire_packet q flowID d (word_of_nat (length d - n))))
           in bind_outcome (receiveFlow s flowID) (\<lambda>(r, s1, es).
              bind_outcome (vi_Len V flowID) (\<lambda>len.
                if length d < len then Panic ''slice bounds out of range''
                else Done (PushingPacket r (drop len d), s1, ev @ es)))))"

text \<open>The steps that wait for nothing but the lock of a map or a flow.\<close>

fun local_step ::
  "varint_lib \<Rightarrow> outside \<Rightarrow> bool \<Rightarrow> pc \<Rightarrow> Session \<Rightarrow> (pc \<times> Session \<times> effect list) outcome" where
  "local_step V w c (HandlingDatagram d) s = HandleDatagram_lookup V s d"
| "local_step V w c (PushingPacket r p) s =
     bind_outcome (on_flow r (deliver (out_pick w) p) s) (\<lambda>s'. Done (handled c, s', []))"
| "local_step V w c (LookingUpFlow i rs) s =
     (let ev = qlog_if (s_qlog s) (\<lambda>q. StreamOpened i (word_of_int (rs_ID rs)))
      in bind_outcome (receiveFlow s i) (\<lambda>(r, s1, es). Done (Registering r rs, s1, ev @ es)))"
| "local_step V w c (Registering r rs) s =
     (case st_flow (s_rstore s) r of
        None \<Rightarrow> Panic ''nil pointer dereference''
      | Some f \<Rightarrow>
          (case readStream_register f rs of (ok, f', es) \<Rightarrow>
             Done (if ok then ReadingFrames r rs else Exited,
                   s\<lparr>s_rstore := st_put r f' (s_rstore s)\<rparr>, es)))"
| "local_step V w c (Unregistering r rs) s =
     bind_outcome (on_flow r (\<lambda>f. Done (readStream_unregister f rs)) s) (\<lambda>s'. Done (Exited, s', []))"
| "local_step V w c (NewReceiveLocked i) s =
     bind_outcome (NewReceiveFlow_locked s i) (\<lambda>(res, s'). Done (GotFlow res, s', []))"
| "local_step V w c (NewSendUnlocked i) s =
     bind_outcome (NewSendFlow_insert V s i) (\<lambda>(res, s'). Done (GotFlow res, s', []))"
| "local_step V w c p s = Done (p, s, [])"

text \<open>The steps that read from a stream: the flow ID, and one frame of the loop of \<open>readStream\<close>.\<close>

definition flow_id_step :: "varint_lib \<Rightarrow> ReceiveStream \<Rightarrow> pc \<times> effect list" where
  "flow_id_step V rs =
     (case vi_Read V rs of
        (Inl e, rs1) \<Rightarrow> (Exited, [CancelRead (rs_ID rs) ErrRoQPacketError])
      | (Inr flowID, rs1) \<Rightarrow> (LookingUpFlow flowID rs1, []))"

definition frame_step ::
  "varint_lib \<Rightarrow> pool_pick \<Rightarrow> nat \<Rightarrow> ReceiveStream \<Rightarrow> Session \<Rightarrow> (pc \<times> Session \<times> effect list) outcome" where
  "frame_step V pick r rs s =
     (case st_flow (s_rstore s) r of
        None \<Rightarrow> Panic ''nil pointer dereference''
      | Some f \<Rightarrow>
          bind_outcome (readStream_iter V pick f rs) (\<lambda>(more, f', rs', es).
            Done (if more then ReadingFrames r rs' else Unregistering r rs',
                  s\<lparr>s_rstore := st_put r f' (s_rstore s)\<rparr>, es)))"

text \<open>The parts of \<open>close\<close> between taking the mutex and cancelling the context.\<close>

fun close_step ::
  "outside \<Rightarrow> u64 \<Rightarrow> string \<Rightarrow> close_pc \<Rightarrow> Session \<Rightarrow> (close_pc \<times> Session \<times> effect list) outcome" where
  "close_step w c why AtSendSnapshot s = Done (AtSend (elements (s_sendFlows s)), s, [])"
| "close_step w c why (AtSend []) s = Done (AtReceiveSnapshot, s, [])"
| "close_step w c why (AtSend ((i, ref) # xs)) s =
     (case close_send_flow (out_deref w) (cr_stream (out_close w)) ref s of
        (_, s', es) \<Rightarrow> Done (AtSend xs, s', es))"
| "close_step w c why AtReceiveSnapshot s = Done (AtReceive (elements (s_receiveFlows s)), s, [])"
| "close_step w c why (AtReceive []) s = Done (AtConn, s, [])"
| "close_step w c why (AtReceive ((i, r) # xs)) s =
     bind_outcome (close_receive_flow r s) (\<lambda>(s', es). Done (AtReceive xs, s', es))"
| "close_step w c why AtConn s =
     Done (AtCancel, s\<lparr>s_connCloseErr := cr_conn (out_close w)\<rparr>, [ConnCloseWithError c why])"
| "close_step w c why p s = Done (p, s, [])"

section \<open>Interleaving\<close>

text \<open>
  \<open>Run\<close>: a goroutine runs. \<open>Input\<close>: bytes arrive on a stream, or the connection fails. \<open>Arrival\<close>: a
  datagram or a stream arrives. \<open>Call\<close>: the application calls the session or one of its flows.
\<close>

datatype label = Run | Input | Arrival | Call

text \<open>
  What a goroutine that reads a stream finds there: the bytes the peer sent, or, once the connection
  is closed, an error in front of some byte of them.
\<close>

inductive fetch :: "bool \<Rightarrow> label \<Rightarrow> ReceiveStream \<Rightarrow> ReceiveStream \<Rightarrow> bool" where
  input: "fetch closed Input rs rs"
| cut: "fetch True Run rs (rs\<lparr>rs_data := take n (rs_data rs), rs_end := e\<rparr>)"

definition thread :: "sys \<Rightarrow> nat \<Rightarrow> bool \<Rightarrow> pc \<Rightarrow> bool" where
  "thread st k c p \<longleftrightarrow> k < length (sy_threads st) \<and> sy_threads st ! k = \<lparr>g_counted = c, g_pc = p\<rparr>"

text \<open>A goroutine moves on; one the session started calls \<open>wg.Done\<close> when it returns.\<close>

definition wg_Done :: "bool \<Rightarrow> pc \<Rightarrow> Session \<Rightarrow> Session" where
  "wg_Done c p s = (if c \<and> p = Exited then s\<lparr>s_wg := s_wg s - 1\<rparr> else s)"

definition goto :: "nat \<Rightarrow> bool \<Rightarrow> pc \<Rightarrow> Session \<Rightarrow> effect list \<Rightarrow> sys \<Rightarrow> sys" where
  "goto k c p s es st =
     st\<lparr>sy_session := wg_Done c p s, sy_threads := (sy_threads st)[k := \<lparr>g_counted = c, g_pc = p\<rparr>],
        sy_trace := sy_trace st @ es\<rparr>"

definition spawn :: "goroutine \<Rightarrow> sys \<Rightarrow> sys" where
  "spawn g st = st\<lparr>sy_threads := sy_threads st @ [g]\<rparr>"

text \<open>Where the calls of the application start.\<close>

fun call_pc :: "Session \<Rightarrow> pc \<Rightarrow> bool" where
  "call_pc s (Closing p c why k) = (p = AtLock \<and> c = ErrRoQNoError \<and> why = '''' \<and> k = WaitForLoops)"
| "call_pc s (NewReceive i) = True"
| "call_pc s (NewSend i) = fits62 i"
| "call_pc s (HandlingDatagram d) = True"
| "call_pc s (LookingUpFlow i rs) = True"
| "call_pc s _ = False"

text \<open>The calls on flows, which take a lock of the flow only.\<close>

fun flow_call :: "session_op \<Rightarrow> bool" where
  "flow_call (OpNewSendStream ref prio inc res sref) = True"
| "flow_call (OpSendFlowClose ref) = True"
| "flow_call (OpRead r n) = True"
| "flow_call (OpSetReadDeadline r t) = True"
| "flow_call (OpTimer r ch) = True"
| "flow_call (OpReceiveFlowClose r) = True"
| "flow_call _ = False"

inductive sys_step :: "varint_lib \<Rightarrow> label \<Rightarrow> sys \<Rightarrow> sys \<Rightarrow> bool" for V where
  datagram_arrives: "\<not> sy_connClosed st \<Longrightarrow>
    sys_step V Arrival st (st\<lparr>sy_dgrams := sy_dgrams st @ [d]\<rparr>)"
| stream_arrives: "\<not> sy_connClosed st \<Longrightarrow>
    sys_step V Arrival st (st\<lparr>sy_streams := sy_streams st @ [rs]\<rparr>)"
| call: "call_pc (sy_session st) p \<Longrightarrow>
    sys_step V Call st (spawn \<lparr>g_counted = False, g_pc = p\<rparr> st)"
| call_flow: "flow_call op \<Longrightarrow> op_ok (sy_session st) op \<Longrightarrow>
    run_op V w op (sy_session st) = Done (s', es) \<Longrightarrow>
    sys_step V Call st (st\<lparr>sy_session := s', sy_trace := sy_trace st @ es\<rparr>)"
| take_datagram: "thread st k c ReceivingDatagram \<Longrightarrow> sy_dgrams st = d # ds \<Longrightarrow>
    sys_step V Run st (goto k c (HandlingDatagram d) (sy_session st) [] (st\<lparr>sy_dgrams := ds\<rparr>))"
| datagrams_end: "thread st k c ReceivingDatagram \<Longrightarrow> l = Input \<or> l = Run \<and> s_ctxDone (sy_session st) \<Longrightarrow>
    sys_step V l st (goto k c Exited (sy_session st) [] st)"
| accept: "thread st k c AcceptingStream \<Longrightarrow> sy_streams st = rs # rss \<Longrightarrow>
    s' = (sy_session st)\<lparr>s_wg := Suc (s_wg (sy_session st))\<rparr> \<Longrightarrow>
    sys_step V Run st
      (spawn \<lparr>g_counted = True, g_pc = ReadingFlowID rs\<rparr> (st\<lparr>sy_session := s', sy_streams := rss\<rparr>))"
| accept_end: "thread st k c AcceptingStream \<Longrightarrow> l = Input \<or> l = Run \<and> s_ctxDone (sy_session st) \<Longrightarrow>
    sys_step V l st (goto k c Exited (sy_session st) [] st)"
| read_flow_id: "thread st k c (ReadingFlowID rs) \<Longrightarrow> fetch (sy_connClosed st) l rs rs' \<Longrightarrow>
    flow_id_step V rs' = (p, es) \<Longrightarrow>
    sys_step V l st (goto k c p (sy_session st) es st)"
| read_frame: "thread st k c (ReadingFrames r rs) \<Longrightarrow> fetch (sy_connClosed st) l rs rs' \<Longrightarrow>
    frame_step V pick r rs' (sy_session st) = Done (p, s', es) \<Longrightarrow>
    sys_step V l st (goto k c p s' es st)"
| local: "thread st k c p \<Longrightarrow> is_local p \<Longrightarrow> local_step V w c p (sy_session st) = Done (p', s', es) \<Longrightarrow>
    sys_step V Run st (goto k c p' s' es st)"
| close_again: "thread st k c (Closing AtLock code why a) \<Longrightarrow> sy_mutex st = None \<Longrightarrow>
    s_closedErr (sy_session st) \<noteq> None \<Longrightarrow>
    sys_step V Run st (goto k c (after_close c a) (sy_session st) [] st)"
| close_begin: "thread st k c (Closing AtLock code why a) \<Longrightarrow> sy_mutex st = None \<Longrightarrow>
    s_closedErr (sy_session st) = None \<Longrightarrow>
    s' = (sy_session st)\<lparr>s_closedErr := Some (SessionErr \<lparr>se_code = code, se_reason = why\<rparr>)\<rparr> \<Longrightarrow>
    sys_step V Run st (goto k c (Closing AtSendSnapshot code why a) s' [] (st\<lparr>sy_mutex := Some k\<rparr>))"
| close_part: "thread st k c (Closing p code why a) \<Longrightarrow> p \<noteq> AtLock \<Longrightarrow> p \<noteq> AtCancel \<Longrightarrow>
    close_step w code why p (sy_session st) = Done (p', s', es) \<Longrightarrow>
    sys_step V Run st (goto k c (Closing p' code why a) s' es
      (st\<lparr>sy_connClosed := (sy_connClosed st \<or> p = AtConn)\<rparr>))"
| close_end: "thread st k c (Closing AtCancel code why a) \<Longrightarrow>
    s' = (sy_session st)\<lparr>s_ctxDone := True\<rparr> \<Longrightarrow>
    sys_step V Run st (goto k c (after_close c a) s' [] (st\<lparr>sy_mutex := None\<rparr>))"
| waited: "thread st k c Waiting \<Longrightarrow> s_wg (sy_session st) = 0 \<Longrightarrow>
    sys_step V Run st (goto k c Finishing (sy_session st) [] st)"
| finish: "thread st k c Finishing \<Longrightarrow> sy_mutex st = None \<Longrightarrow>
    Close_finish (sy_session st) = (e, s', es) \<Longrightarrow>
    sys_step V Run st (goto k c (CloseReturned e) s' es st)"
| check_receive: "thread st k c (NewReceive i) \<Longrightarrow> sy_mutex st = None \<Longrightarrow>
    p = (case isClosed (sy_session st) of Some e \<Rightarrow> GotFlow (Inl e) | None \<Rightarrow> NewReceiveLocked i) \<Longrightarrow>
    sys_step V Run st (goto k c p (sy_session st) [] st)"
| check_send: "thread st k c (NewSend i) \<Longrightarrow> sy_mutex st = None \<Longrightarrow>
    p = (case isClosed (sy_session st) of Some e \<Rightarrow> GotFlow (Inl e) | None \<Rightarrow> NewSendUnlocked i) \<Longrightarrow>
    sys_step V Run st (goto k c p (sy_session st) [] st)"

text \<open>The goroutines \<open>start\<close> runs.\<close>

definition loops :: "bool \<Rightarrow> goroutine list" where
  "loops acceptDatagrams =
     (if acceptDatagrams then [\<lparr>g_counted = True, g_pc = ReceivingDatagram\<rparr>] else []) @
     [\<lparr>g_counted = True, g_pc = AcceptingStream\<rparr>]"

definition sys_init :: "Session \<Rightarrow> goroutine list \<Rightarrow> sys" where
  "sys_init s gs = \<lparr>sy_session = s, sy_threads = gs, sy_mutex = None, sy_dgrams = [], sy_streams = [],
                    sy_connClosed = False, sy_trace = []\<rparr>"

inductive sys_reach :: "varint_lib \<Rightarrow> sys \<Rightarrow> bool" for V where
  new: "NewSession conn accept opts = Inr s \<Longrightarrow> (\<And>opt. Some opt \<in> set opts \<Longrightarrow> library_option opt) \<Longrightarrow>
    sys_reach V (sys_init s (loops accept))"
| new_app: "NewSessionWithAppHandledConn conn accept opts = Inr s \<Longrightarrow>
    (\<And>opt. Some opt \<in> set opts \<Longrightarrow> library_option opt) \<Longrightarrow> sys_reach V (sys_init s [])"
| step: "sys_reach V st \<Longrightarrow> sys_step V l st st' \<Longrightarrow> sys_reach V st'"

section \<open>The session under a step\<close>

text \<open>
  Between the steps of \<open>close\<close>, and when a flow is created while the session closes, a closed session
  may have open flows: what holds at every moment is the invariant without its last part.
\<close>

definition core_ok :: "Session \<Rightarrow> bool" where
  "core_ok s \<longleftrightarrow> recv_ok s \<and> send_ok s"

text \<open>A step neither touches the life cycle of the session nor forgets a receive flow.\<close>

definition keeps :: "Session \<Rightarrow> Session \<Rightarrow> bool" where
  "keeps s s' \<longleftrightarrow>
     s_wg s' = s_wg s \<and> s_closedErr s' = s_closedErr s \<and> s_ctxDone s' = s_ctxDone s \<and>
     s_qlog s' = s_qlog s \<and> s_qlogClosed s' = s_qlogClosed s \<and> s_connCloseErr s' = s_connCloseErr s \<and>
     (\<forall>r. st_flow (s_rstore s) r \<noteq> None \<longrightarrow> st_flow (s_rstore s') r \<noteq> None)"

lemma keeps_refl [simp]: "keeps s s"
  by (simp add: keeps_def)

lemma core_okD:
  assumes "core_ok s"
  shows "recv_ok s" and "send_ok s"
  using assms by (simp_all add: core_ok_def)

lemma session_ok_core: "session_ok s \<Longrightarrow> core_ok s"
  by (simp add: session_ok_def core_ok_def)

lemma core_ok_control [simp]:
  "core_ok (s\<lparr>s_wg := n\<rparr>) = core_ok s" "core_ok (s\<lparr>s_closedErr := e\<rparr>) = core_ok s"
  "core_ok (s\<lparr>s_ctxDone := b\<rparr>) = core_ok s" "core_ok (s\<lparr>s_connCloseErr := e\<rparr>) = core_ok s"
  "core_ok (s\<lparr>s_qlogClosed := b\<rparr>) = core_ok s"
  by (simp_all add: core_ok_def recv_ok_def send_ok_def)

lemma flow_rf_ok: "core_ok s \<Longrightarrow> st_flow (s_rstore s) r = Some f \<Longrightarrow> rf_ok [] f"
  by (simp add: core_ok_def recv_ok_def store_ok_def)

lemma put_core_ok:
  assumes "core_ok s" and "st_flow (s_rstore s) r = Some f" and "rf_ok [] f'" and "rf_id f' = rf_id f"
  shows "core_ok (with_flow r f' s)" and "keeps s (with_flow r f' s)"
  using recv_ok_put [OF core_okD(1) [OF assms(1)] assms(2-4)] core_okD(2) [OF assms(1)]
  by (auto simp: core_ok_def send_ok_def keeps_def st_put_def)

text \<open>
  Calls on flows do not look at the life cycle of the session, so what was shown of open sessions
  holds of all.
\<close>

definition reopen :: "Session \<Rightarrow> Session" where
  "reopen s = s\<lparr>s_closedErr := None, s_ctxDone := False\<rparr>"

lemma reopen_ok: "core_ok s \<longleftrightarrow> session_ok (reopen s)"
  by (simp add: core_ok_def session_ok_def reopen_def closed_ok_def recv_ok_def send_ok_def)

lemma reopen_fields [simp]:
  "s_rstore (reopen s) = s_rstore s" "s_sstore (reopen s) = s_sstore s"
  "s_sendFlows (reopen s) = s_sendFlows s" "s_receiveFlows (reopen s) = s_receiveFlows s"
  by (simp_all add: reopen_def)

lemma close_receive_flow_core:
  assumes "core_ok s"
  shows "\<exists>s' es. close_receive_flow r s = Done (s', es) \<and> core_ok s' \<and> keeps s s' \<and>
    s_sendFlows s' = s_sendFlows s \<and> s_receiveFlows s' = s_receiveFlows s"
proof -
  have st: "store_ok (s_rstore s)"
    using core_okD(1) [OF assms] by (simp add: recv_ok_def)
  have "core_ok (s\<lparr>s_rstore := close_flows {r} (s_rstore s)\<rparr>)"
    using assms by (simp add: core_ok_def recv_ok_def send_ok_def roq_inv)
  then show ?thesis
    using close_receive_flow_eq [OF st] by (simp add: keeps_def close_flows_def)
qed

lemma close_send_flow_core:
  assumes "core_ok s" and "close_send_flow deref ce ref s = (e, s', es)"
  shows "core_ok s'" and "keeps s s'" and "s_receiveFlows s' = s_receiveFlows s"
    and "length (elements (s_sendFlows s')) \<le> length (elements (s_sendFlows s))"
proof -
  have eq: "close_send_flow deref ce ref (reopen s) = (e, reopen s', es)"
    using assms(2) by (auto simp: close_send_flow_def SendFlow_Close_eq reopen_def split: option.splits)
  have "session_ok (reopen s')"
    using assms(1) by (intro close_send_flow_ok [OF _ eq]) (simp add: reopen_ok)
  then show "core_ok s'"
    by (simp add: reopen_ok)
  show "keeps s s'" "s_receiveFlows s' = s_receiveFlows s"
    using assms(2)
    by (auto simp: close_send_flow_def SendFlow_Close_eq keeps_def split: option.splits)
  show "length (elements (s_sendFlows s')) \<le> length (elements (s_sendFlows s))"
    using assms(2)
    by (auto simp: close_send_flow_def SendFlow_Close_eq sm_delete_def length_delete_le split: option.splits)
qed

lemma found_core:
  assumes "core_ok s" and "found s i r s'"
  shows "core_ok s'" and "keeps s s'" and "st_flow (s_rstore s') r \<noteq> None"
proof -
  have eq: "s' = s\<lparr>s_receiveFlowBuffer := s_receiveFlowBuffer s', s_rstore := s_rstore s'\<rparr>"
    using assms(2) by (simp add: found_def)
  have "send_ok s'"
    using core_okD(2) [OF assms(1)] by (subst eq) (simp add: send_ok_def)
  then show "core_ok s'"
    using assms(2) by (simp add: core_ok_def found_def)
  have "s_wg s' = s_wg s" "s_closedErr s' = s_closedErr s" "s_ctxDone s' = s_ctxDone s"
    "s_qlog s' = s_qlog s" "s_qlogClosed s' = s_qlogClosed s" "s_connCloseErr s' = s_connCloseErr s"
    by (subst eq, simp)+
  then show "keeps s s'"
    using assms(2) by (simp add: keeps_def found_def)
  show "st_flow (s_rstore s') r \<noteq> None"
    using assms(2) by (auto simp: found_def names_def)
qed

lemma NewReceiveFlow_locked_core:
  assumes "core_ok s"
  shows "\<exists>res s'. NewReceiveFlow_locked s i = Done (res, s') \<and> core_ok s' \<and> keeps s s'"
proof (cases "sm_get (s_receiveFlows s) i")
  case None
  obtain r b st where n: "NewReceiveFlow_locked s i = Done (Inr r, s\<lparr>s_receiveFlowBuffer := b,
      s_rstore := st, s_receiveFlows := sm_set i r (s_receiveFlows s)\<rparr>)"
    "recv_ok (s\<lparr>s_receiveFlowBuffer := b, s_rstore := st,
       s_receiveFlows := sm_set i r (s_receiveFlows s)\<rparr>)"
    "pop (s_receiveFlowBuffer s) i = (map_of (rfb_buffer (s_receiveFlowBuffer s)) i, b)"
    "case map_of (rfb_buffer (s_receiveFlowBuffer s)) i of
       Some q \<Rightarrow> r = q \<and> st = s_rstore s
     | None \<Rightarrow> \<exists>f. newReceiveFlow i (s_receiveBufferSize s) (s_qlog s) (Some (s_logger s)) = Done f
                 \<and> (r, st) = st_alloc f (s_rstore s)"
    by (rule NewReceiveFlow_locked_ok [OF core_okD(1) [OF assms] None]) (rule that)
  have "\<forall>q. st_flow (s_rstore s) q \<noteq> None \<longrightarrow> st_flow st q \<noteq> None"
    using n(4) by (auto simp: st_alloc_def split: option.splits)
  then show ?thesis
    using n(1,2) core_okD(2) [OF assms] by (simp add: core_ok_def send_ok_def keeps_def)
next
  case (Some r)
  then show ?thesis
    using assms by (simp add: NewReceiveFlow_locked_def)
qed

context quicvarint
begin

lemma NewSendFlow_insert_core:
  assumes "core_ok s" and "fits62 i"
  shows "\<exists>res s'. NewSendFlow_insert V s i = Done (res, s') \<and> core_ok s' \<and> keeps s s'"
proof -
  obtain f where f: "newFlow V i (s_qlog s) (Some (s_logger s)) = Done f"
    using newFlow_ok [OF assms(2)] by simp
  obtain ref store where al: "ss_alloc f (s_sstore s) = (ref, store)"
    by (cases "ss_alloc f (s_sstore s)")
  have "send_ok (s\<lparr>s_sendFlows := sm_set i ref (s_sendFlows s), s_sstore := store\<rparr>)"
    using core_okD(2) [OF assms(1)] newFlow_Done [OF f] by (intro send_ok_insert [OF _ al]) simp_all
  then show ?thesis
    using assms(1) f al
    by (cases "sm_get (s_sendFlows s) i")
      (simp_all add: NewSendFlow_insert_def sm.add_present sm.add_absent core_ok_def recv_ok_def keeps_def)
qed

lemma readStream_iter_ok:
  assumes "rf_ok [] f"
  shows "\<exists>more f' r' es. readStream_iter V pick f r = Done (more, f', r', es) \<and> rf_ok [] f' \<and>
    rf_id f' = rf_id f \<and> rf_closed f' = rf_closed f"
proof -
  let ?bs = "rs_data r"
  consider (fail) e where "vi_Parse V ?bs = Inl e"
    | (frame) v n where "vi_Parse V ?bs = Inr (v, n)"
        "unat v \<le> length (drop n ?bs) \<or> rs_end r = io_EOF"
    | (cut) v n where "vi_Parse V ?bs = Inr (v, n)" "length (drop n ?bs) < unat v" "rs_end r \<noteq> io_EOF"
    by (cases "vi_Parse V ?bs") (force simp: not_le)+
  then show ?thesis
  proof cases
    case fail
    then show ?thesis
      using readStream_iter_fail assms by blast
  next
    case frame
    obtain f' where "deliver pick (take (unat v) (drop n ?bs)) f = Done f'"
      "queues f [take (unat v) (drop n ?bs)] f'"
      using deliver_queues [OF assms] by blast
    then show ?thesis
      using readStream_iter_frame [OF frame(1) refl frame(2), of pick f]
      by (auto simp: queues_def same_but_buffers_def)
  next
    case cut
    then show ?thesis
      using readStream_iter_cut [OF cut(1) refl cut(2,3) assms, of pick]
      by (auto simp: queues_def same_but_buffers_def)
  qed
qed

end

section \<open>The invariant\<close>

text \<open>Between taking the session's mutex in \<open>close\<close> and releasing it.\<close>

fun in_region :: "pc \<Rightarrow> bool" where
  "in_region (Closing p c why a) = (p \<noteq> AtLock)"
| "in_region _ = False"

text \<open>What the goroutines of the session run.\<close>

fun loop_pc :: "pc \<Rightarrow> bool" where
  "loop_pc (Closing p c why a) = (a = LoopAgain)"
| "loop_pc Waiting = False"
| "loop_pc Finishing = False"
| "loop_pc (CloseReturned e) = False"
| "loop_pc (NewReceive i) = False"
| "loop_pc (NewReceiveLocked i) = False"
| "loop_pc (NewSend i) = False"
| "loop_pc (NewSendUnlocked i) = False"
| "loop_pc (GotFlow res) = False"
| "loop_pc _ = True"

text \<open>
  What a goroutine relies on: flows it holds exist, a flow to be created has an ID that can be
  encoded, a call of \<open>Close\<close> behind \<open>close\<close> finds the session shut down, and behind \<open>wg.Wait\<close> finds
  all goroutines of the session gone.
\<close>

fun pc_ok :: "Session \<Rightarrow> pc \<Rightarrow> bool" where
  "pc_ok s (PushingPacket r p) = (st_flow (s_rstore s) r \<noteq> None)"
| "pc_ok s (Registering r rs) = (st_flow (s_rstore s) r \<noteq> None)"
| "pc_ok s (ReadingFrames r rs) = (st_flow (s_rstore s) r \<noteq> None)"
| "pc_ok s (Unregistering r rs) = (st_flow (s_rstore s) r \<noteq> None)"
| "pc_ok s (NewSend i) = fits62 i"
| "pc_ok s (NewSendUnlocked i) = fits62 i"
| "pc_ok s Waiting = s_ctxDone s"
| "pc_ok s Finishing = (s_ctxDone s \<and> s_wg s = 0)"
| "pc_ok s (CloseReturned e) =
     (s_ctxDone s \<and> s_wg s = 0 \<and> e = s_connCloseErr s \<and> (s_qlog s \<noteq> None \<longrightarrow> s_qlogClosed s))"
| "pc_ok s _ = True"

definition alive :: "goroutine \<Rightarrow> bool" where
  "alive g \<longleftrightarrow> g_counted g \<and> g_pc g \<noteq> Exited"

text \<open>A goroutine of the session runs its loops and handlers; only they accept streams.\<close>

definition role_ok :: "bool \<Rightarrow> pc \<Rightarrow> bool" where
  "role_ok c p \<longleftrightarrow> (if c then loop_pc p else p \<noteq> AcceptingStream)"

definition threads_ok :: "sys \<Rightarrow> bool" where
  "threads_ok st \<longleftrightarrow>
     (\<forall>g \<in> set (sy_threads st). pc_ok (sy_session st) (g_pc g) \<and> role_ok (g_counted g) (g_pc g))"

definition wg_ok :: "sys \<Rightarrow> bool" where
  "wg_ok st \<longleftrightarrow> s_wg (sy_session st) = length (filter alive (sy_threads st)) \<and>
     (s_qlogClosed (sy_session st) \<longrightarrow> s_ctxDone (sy_session st) \<and> s_wg (sy_session st) = 0)"

definition mutex_ok :: "sys \<Rightarrow> bool" where
  "mutex_ok st \<longleftrightarrow> (\<forall>k. (\<exists>c p. thread st k c p \<and> in_region p) \<longleftrightarrow> sy_mutex st = Some k)"

text \<open>The session is closed from the start of \<open>close\<close> on, and its context cancelled at the end.\<close>

definition shutdown_ok :: "sys \<Rightarrow> bool" where
  "shutdown_ok st \<longleftrightarrow>
     (s_closedErr (sy_session st) \<noteq> None \<longleftrightarrow> s_ctxDone (sy_session st) \<or> sy_mutex st \<noteq> None) \<and>
     (sy_mutex st \<noteq> None \<longrightarrow> \<not> s_ctxDone (sy_session st)) \<and>
     (s_ctxDone (sy_session st) \<longrightarrow> sy_connClosed st) \<and>
     (\<forall>k c code why a. thread st k c (Closing AtCancel code why a) \<longrightarrow> sy_connClosed st)"

definition sys_ok :: "sys \<Rightarrow> bool" where
  "sys_ok st \<longleftrightarrow> core_ok (sy_session st) \<and> threads_ok st \<and> wg_ok st \<and> mutex_ok st \<and> shutdown_ok st"

text \<open>How the session evolves under the other goroutines.\<close>

definition evolves :: "Session \<Rightarrow> Session \<Rightarrow> bool" where
  "evolves s s' \<longleftrightarrow>
     (\<forall>r. st_flow (s_rstore s) r \<noteq> None \<longrightarrow> st_flow (s_rstore s') r \<noteq> None) \<and>
     (s_ctxDone s \<longrightarrow> s_ctxDone s' \<and> s_connCloseErr s' = s_connCloseErr s \<and> (s_wg s = 0 \<longrightarrow> s_wg s' = 0)) \<and>
     s_qlog s' = s_qlog s \<and> (s_qlogClosed s \<longrightarrow> s_qlogClosed s')"

lemma evolves_keeps: "keeps s s' \<Longrightarrow> evolves s s'"
  by (simp add: keeps_def evolves_def)

lemma pc_ok_evolves: "pc_ok s p \<Longrightarrow> evolves s s' \<Longrightarrow> pc_ok s' p"
  by (cases "(s, p)" rule: pc_ok.cases) (auto simp: evolves_def)

lemma thread_mem: "thread st k c p \<Longrightarrow> \<lparr>g_counted = c, g_pc = p\<rparr> \<in> set (sy_threads st)"
  by (metis nth_mem thread_def)

lemma mem_thread: "g \<in> set (sy_threads st) \<Longrightarrow> \<exists>k. thread st k (g_counted g) (g_pc g)"
  by (auto simp: in_set_conv_nth thread_def)

lemma threadD:
  assumes "sys_ok st" and "thread st k c p"
  shows "pc_ok (sy_session st) p" and "role_ok c p" and "in_region p \<longleftrightarrow> sy_mutex st = Some k"
proof -
  show "pc_ok (sy_session st) p" and "role_ok c p"
    using assms(1) thread_mem [OF assms(2)] by (auto simp: sys_ok_def threads_ok_def)
  have "in_region p \<longleftrightarrow> (\<exists>c p. thread st k c p \<and> in_region p)"
    using assms(2) by (auto simp: thread_def)
  then show "in_region p \<longleftrightarrow> sy_mutex st = Some k"
    using assms(1) by (auto simp: sys_ok_def mutex_ok_def)
qed

lemma wg_positive:
  assumes "sys_ok st" and "thread st k True p" and "p \<noteq> Exited"
  shows "0 < s_wg (sy_session st)"
proof -
  have "\<lparr>g_counted = True, g_pc = p\<rparr> \<in> set (filter alive (sy_threads st))"
    using thread_mem [OF assms(2)] assms(3) by (simp add: alive_def)
  then have "0 < length (filter alive (sy_threads st))"
    by (rule length_pos_if_in_set)
  then show ?thesis
    using assms(1) by (simp add: sys_ok_def wg_ok_def)
qed

section \<open>Every step keeps it\<close>

text \<open>A goroutine moves on, beside changes of the connection and of the mutex it holds or takes.\<close>

lemma thread_goto:
  assumes "thread st k c p" and "sy_threads st1 = sy_threads st"
  shows "thread (goto k c p' s es st1) j d q \<longleftrightarrow>
    (if j = k then d = c \<and> q = p' else thread st j d q)"
  using assms by (auto simp: thread_def goto_def)

lemma goto_ok:
  assumes I: "sys_ok st" and th: "thread st k c p" and "p \<noteq> Exited"
    and st1: "sy_threads st1 = sy_threads st"
    and core: "core_ok s'" and ev: "evolves (sy_session st) s'" and wg: "s_wg s' = s_wg (sy_session st)"
    and p': "pc_ok s' p'" "role_ok c p'"
    and qlog: "s_qlogClosed s' \<longrightarrow> s_qlogClosed (sy_session st) \<or> s_ctxDone s' \<and> s_wg s' = 0"
    and mutex: "in_region p' \<longleftrightarrow> sy_mutex st1 = Some k"
      "\<And>j. j \<noteq> k \<Longrightarrow> sy_mutex st1 = Some j \<longleftrightarrow> sy_mutex st = Some j"
    and shut: "s_closedErr s' \<noteq> None \<longleftrightarrow> s_ctxDone s' \<or> sy_mutex st1 \<noteq> None"
      "sy_mutex st1 \<noteq> None \<longrightarrow> \<not> s_ctxDone s'" "s_ctxDone s' \<longrightarrow> sy_connClosed st1"
      "sy_connClosed st \<longrightarrow> sy_connClosed st1"
      "\<And>code why a. p' = Closing AtCancel code why a \<Longrightarrow> sy_connClosed st1"
  shows "sys_ok (goto k c p' s' es st1)"
proof -
  let ?g = "\<lparr>g_counted = c, g_pc = p'\<rparr>" and ?st' = "goto k c p' s' es st1"
  have k: "k < length (sy_threads st)" "sy_threads st ! k = \<lparr>g_counted = c, g_pc = p\<rparr>"
    using th by (simp_all add: thread_def)
  have pos: "c \<Longrightarrow> 0 < s_wg s'"
    using wg_positive [OF I, of k p] th assms(3) wg by simp
  have sess: "sy_session ?st' = wg_Done c p' s'" and ths: "sy_threads ?st' = (sy_threads st)[k := ?g]"
    and rest: "sy_mutex ?st' = sy_mutex st1" "sy_connClosed ?st' = sy_connClosed st1"
    by (simp_all add: goto_def st1)
  have same: "s_closedErr (wg_Done c p' s') = s_closedErr s'" "s_ctxDone (wg_Done c p' s') = s_ctxDone s'"
    "s_qlogClosed (wg_Done c p' s') = s_qlogClosed s'" "core_ok (wg_Done c p' s')"
    and ev': "evolves (sy_session st) (wg_Done c p' s')" "evolves s' (wg_Done c p' s')"
    using core ev by (simp_all add: wg_Done_def evolves_def)
  have "pc_ok (wg_Done c p' s') (g_pc g) \<and> role_ok (g_counted g) (g_pc g)"
    if "g \<in> set (sy_threads ?st')" for g
  proof (cases "g = ?g")
    case True
    then show ?thesis
      using p' pc_ok_evolves [OF p'(1) ev'(2)] by simp
  next
    case False
    then have "g \<in> set (sy_threads st)"
      using that set_update_subset_insert [of "sy_threads st" k ?g] by (auto simp: ths)
    then show ?thesis
      using I pc_ok_evolves [OF _ ev'(1)] by (auto simp: sys_ok_def threads_ok_def)
  qed
  then have "threads_ok ?st'"
    by (simp add: threads_ok_def sess)
  moreover have "wg_ok ?st'"
  proof -
    have "s_wg s' = length (filter alive (sy_threads st))"
      using I wg by (simp add: sys_ok_def wg_ok_def)
    moreover have "length (filter alive (sy_threads ?st')) + (if c then 1 else 0)
        = length (filter alive (sy_threads st)) + (if c \<and> p' \<noteq> Exited then 1 else 0)"
      using length_filter_update [OF k(1), of alive ?g] k(2) assms(3) by (simp add: ths alive_def)
    ultimately have "s_wg (wg_Done c p' s') = length (filter alive (sy_threads ?st'))"
      using pos by (auto simp: wg_Done_def split: if_splits)
    moreover have "s_wg (wg_Done c p' s') = 0" and "s_ctxDone s'" if "s_qlogClosed s'"
      using that qlog I ev wg by (auto simp: wg_Done_def sys_ok_def wg_ok_def evolves_def)
    ultimately show ?thesis
      by (auto simp: wg_ok_def sess same)
  qed
  moreover have "mutex_ok ?st'"
    unfolding mutex_ok_def
  proof
    fix j
    show "(\<exists>d q. thread ?st' j d q \<and> in_region q) \<longleftrightarrow> sy_mutex ?st' = Some j"
      using I mutex(1) mutex(2) [of j]
      by (cases "j = k") (simp_all add: thread_goto [OF th st1] rest sys_ok_def mutex_ok_def)
  qed
  moreover have "shutdown_ok ?st'"
    using I shut by (auto simp: shutdown_ok_def sys_ok_def thread_goto [OF th st1] rest sess same)
  ultimately show ?thesis
    using same(4) by (simp add: sys_ok_def sess)
qed

text \<open>Steps outside \<open>close\<close>.\<close>

lemma goto_plain_ok:
  assumes "sys_ok st" and "thread st k c p" and "p \<noteq> Exited" and "\<not> in_region p" and "\<not> in_region p'"
    and "sy_threads st1 = sy_threads st" and "sy_mutex st1 = sy_mutex st"
    and "sy_connClosed st1 = sy_connClosed st"
    and "core_ok s'" and "keeps (sy_session st) s'" and "pc_ok s' p'" and "role_ok c p'"
  shows "sys_ok (goto k c p' s' es st1)"
proof (rule goto_ok [OF assms(1-3,6,9) evolves_keeps [OF assms(10)]])
  have "sy_mutex st \<noteq> Some k"
    using threadD(3) [OF assms(1,2)] assms(4) by simp
  then show "in_region p' \<longleftrightarrow> sy_mutex st1 = Some k"
    using assms(5,7) by simp
  show "p' = Closing AtCancel code why a \<Longrightarrow> sy_connClosed st1" for code why a
    using assms(5) by auto
qed (use assms in \<open>auto simp: keeps_def sys_ok_def shutdown_ok_def\<close>)

text \<open>Starting a call, and spawning the goroutine of a stream.\<close>

lemma thread_spawn:
  "thread (spawn g st) j d q \<longleftrightarrow>
     thread st j d q \<or> j = length (sy_threads st) \<and> g = \<lparr>g_counted = d, g_pc = q\<rparr>"
  by (auto simp: thread_def spawn_def nth_append)

lemma spawn_ok:
  assumes "sys_ok st" and "pc_ok s' (g_pc g)" and "role_ok (g_counted g) (g_pc g)"
    and "\<not> in_region (g_pc g)" and "sy_threads st1 = sy_threads st" and "sy_mutex st1 = sy_mutex st"
    and "sy_connClosed st1 = sy_connClosed st" and "sy_session st1 = s'"
    and "s' = (sy_session st)\<lparr>s_wg := s_wg (sy_session st) + (if alive g then 1 else 0)\<rparr>"
    and "alive g \<Longrightarrow> 0 < s_wg (sy_session st)"
  shows "sys_ok (spawn g st1)"
proof -
  have ths: "sy_threads (spawn g st1) = sy_threads st @ [g]" and sess: "sy_session (spawn g st1) = s'"
    and rest: "sy_mutex (spawn g st1) = sy_mutex st" "sy_connClosed (spawn g st1) = sy_connClosed st"
    using assms(5-8) by (simp_all add: spawn_def)
  have th: "thread (spawn g st1) j d q \<longleftrightarrow>
      thread st j d q \<or> j = length (sy_threads st) \<and> g = \<lparr>g_counted = d, g_pc = q\<rparr>" for j d q
    using thread_spawn [of g st1] assms(5) by (simp add: thread_def)
  have "evolves (sy_session st) s'"
    using assms(9,10) by (auto simp: evolves_def)
  then have "threads_ok (spawn g st1)"
    using assms(1-3) pc_ok_evolves by (auto simp: threads_ok_def ths sess sys_ok_def)
  moreover have "wg_ok (spawn g st1)"
    using assms(1,9,10) by (auto simp: wg_ok_def ths sess sys_ok_def)
  moreover have "mutex_ok (spawn g st1)"
    using assms(1,4) unfolding sys_ok_def mutex_ok_def th rest
    by (metis (no_types, lifting) goroutine.select_convs(2))
  moreover have "shutdown_ok (spawn g st1)"
    using assms(1,4) unfolding sys_ok_def shutdown_ok_def th rest sess assms(9)
    by (auto dest: arg_cong [of _ _ g_pc])
  ultimately show ?thesis
    using assms(1,9) by (simp add: sys_ok_def sess)
qed

text \<open>The steps that change nothing of the life cycle.\<close>

context quicvarint
begin

lemma local_step_ok:
  assumes "core_ok s" and "pc_ok s p" and "is_local p"
  shows "\<exists>p' s' es. local_step V w c p s = Done (p', s', es) \<and> core_ok s' \<and> keeps s s' \<and>
    pc_ok s' p' \<and> \<not> in_region p' \<and> (role_ok c p \<longrightarrow> role_ok c p')"
  using assms(3)
proof (cases p)
  case (HandlingDatagram d)
  show ?thesis
  proof (cases "vi_Parse V d")
    case (Inl e)
    then show ?thesis
      using assms(1) HandlingDatagram by (simp add: HandleDatagram_lookup_def role_ok_def)
  next
    case (Inr x)
    then obtain i n where x: "vi_Parse V d = Inr (i, n)"
      by (cases x) auto
    note b = Parse_Inr_bounds [OF x]
    have len: "vi_Len V i = Done (length (vi_enc V i))" "\<not> length d < length (vi_enc V i)"
      using b Parse_minimal [OF x] by (simp_all add: Len_fits)
    obtain r s' es where r: "receiveFlow s i = Done (r, s', es)" "found s i r s'"
      by (rule receiveFlow_ok [OF core_okD(1) [OF assms(1)]])
    then show ?thesis
      using found_core [OF assms(1) r(2)] HandlingDatagram x len by (simp add: HandleDatagram_lookup_def role_ok_def)
  qed
next
  case (PushingPacket r q)
  then obtain f where f: "st_flow (s_rstore s) r = Some f"
    using assms(2) by auto
  then obtain f' where f': "deliver (out_pick w) q f = Done f'" "queues f [q] f'"
    using deliver_queues [OF flow_rf_ok [OF assms(1)]] by blast
  have "rf_ok [] f'" "rf_id f' = rf_id f"
    using f'(2) by (simp_all add: queues_def same_but_buffers_def)
  from put_core_ok [OF assms(1) f this] show ?thesis
    using PushingPacket f f'(1) by (simp add: on_flow_def handled_def role_ok_def)
next
  case (LookingUpFlow i rs)
  obtain r s' es where r: "receiveFlow s i = Done (r, s', es)" "found s i r s'"
    by (rule receiveFlow_ok [OF core_okD(1) [OF assms(1)]])
  then show ?thesis
    using found_core [OF assms(1) r(2)] LookingUpFlow by (simp add: role_ok_def)
next
  case (Registering r rs)
  then obtain f where f: "st_flow (s_rstore s) r = Some f"
    using assms(2) by auto
  obtain ok f' es where reg: "readStream_register f rs = (ok, f', es)"
    by (cases "readStream_register f rs")
  have "rf_ok [] f'" "rf_id f' = rf_id f"
    using flow_rf_ok [OF assms(1) f] reg
    by (auto simp: readStream_register_def rf_ok_defs split: if_splits)
  from put_core_ok [OF assms(1) f this] show ?thesis
    using Registering f reg by (simp add: st_put_def role_ok_def)
next
  case (Unregistering r rs)
  then obtain f where f: "st_flow (s_rstore s) r = Some f"
    using assms(2) by auto
  have "rf_ok [] (readStream_unregister f rs)" "rf_id (readStream_unregister f rs) = rf_id f"
    using flow_rf_ok [OF assms(1) f] by (auto simp: readStream_unregister_def rf_ok_defs distinct_removeAll)
  from put_core_ok [OF assms(1) f this] show ?thesis
    using Unregistering f by (simp add: on_flow_def role_ok_def)
next
  case (NewReceiveLocked i)
  then show ?thesis
    using NewReceiveFlow_locked_core [OF assms(1), of i] by (auto simp: role_ok_def)
next
  case (NewSendUnlocked i)
  then show ?thesis
    using NewSendFlow_insert_core [OF assms(1), of i] assms(2) by (auto simp: role_ok_def)
qed (simp_all add: role_ok_def)

lemma frame_step_ok:
  assumes "core_ok s" and "st_flow (s_rstore s) r \<noteq> None"
  shows "\<exists>p' s' es. frame_step V pick r rs s = Done (p', s', es) \<and> core_ok s' \<and> keeps s s' \<and>
    pc_ok s' p' \<and> \<not> in_region p' \<and> role_ok c p'"
proof -
  obtain f where f: "st_flow (s_rstore s) r = Some f"
    using assms(2) by auto
  obtain more f' rs' es where it: "readStream_iter V pick f rs = Done (more, f', rs', es)"
    "rf_ok [] f'" "rf_id f' = rf_id f"
    using readStream_iter_ok [OF flow_rf_ok [OF assms(1) f]] by blast
  from put_core_ok [OF assms(1) f it(2,3)] show ?thesis
    using f it(1) by (simp add: frame_step_def st_put_def role_ok_def)
qed

lemma flow_id_step_ok:
  "flow_id_step V rs = (p, es) \<Longrightarrow> pc_ok s p \<and> \<not> in_region p \<and> role_ok c p"
  by (auto simp: role_ok_def flow_id_step_def split: sum.splits prod.splits)

end

lemma close_step_ok:
  assumes "core_ok s" and "p \<noteq> AtLock" and "p \<noteq> AtCancel"
  shows "\<exists>p' s' es. close_step w code why p s = Done (p', s', es) \<and> core_ok s' \<and>
    (p \<noteq> AtConn \<longrightarrow> keeps s s') \<and> p' \<noteq> AtLock \<and> (p' = AtCancel \<longleftrightarrow> p = AtConn) \<and>
    (p = AtConn \<longrightarrow> s' = s\<lparr>s_connCloseErr := cr_conn (out_close w)\<rparr>)"
proof (cases "(w, code, why, p, s)" rule: close_step.cases)
  case (3 w' c why i ref xs s')
  obtain e s1 es where c: "close_send_flow (out_deref w) (cr_stream (out_close w)) ref s = (e, s1, es)"
    by (cases "close_send_flow (out_deref w) (cr_stream (out_close w)) ref s")
  show ?thesis
    using close_send_flow_core [OF assms(1) c] 3 c by simp
next
  case (6 w' c why i r xs s')
  then show ?thesis
    using close_receive_flow_core [OF assms(1), of r] by auto
qed (use assms in simp_all)

text \<open>Calls on flows.\<close>

lemma flow_call_reopen:
  assumes "flow_call op" and "run_op V w op s = Done (s', es)"
  shows "run_op V w op (reopen s) = Done (reopen s', es)"
  using assms
  by (cases op)
    (auto simp: run_op_def on_flow_def bind_outcome_Done_iff close_receive_flow_def close_send_flow_def
      SendFlow_Close_eq reopen_def split: option.splits prod.splits)

lemma flow_call_keeps:
  assumes "flow_call op" and "run_op V w op s = Done (s', es)"
  shows "keeps s s'"
  using assms
  by (cases op)
    (auto simp: run_op_def on_flow_def bind_outcome_Done_iff close_receive_flow_def close_send_flow_def
      SendFlow_Close_eq keeps_def st_put_def split: option.splits prod.splits)

lemma flow_call_core:
  assumes "quicvarint V" and "core_ok s" and "flow_call op" and "op_ok s op"
    and "run_op V w op s = Done (s', es)"
  shows "core_ok s'"
proof -
  have "op_ok (reopen s) op"
    using assms(3,4) by (cases op) simp_all
  then have "session_ok (reopen s')"
    using quicvarint.run_op_ok [OF assms(1), of "reopen s" op w] assms(2) flow_call_reopen [OF assms(3,5)]
    by (simp add: reopen_ok)
  then show ?thesis
    by (simp add: reopen_ok)
qed

text \<open>A call on a flow leaves the life cycle alone.\<close>

lemma sys_ok_session:
  assumes "sys_ok st" and "core_ok s'" and "keeps (sy_session st) s'" and "sy_threads st1 = sy_threads st"
    and "sy_mutex st1 = sy_mutex st" and "sy_connClosed st1 = sy_connClosed st" and "sy_session st1 = s'"
  shows "sys_ok st1"
proof -
  have th: "thread st1 = thread st"
    using assms(4) by (intro ext) (simp add: thread_def)
  have "threads_ok st1"
    using assms(1,4,7) pc_ok_evolves [OF _ evolves_keeps [OF assms(3)]] by (auto simp: sys_ok_def threads_ok_def)
  then show ?thesis
    using assms by (auto simp: sys_ok_def wg_ok_def mutex_ok_def shutdown_ok_def keeps_def th)
qed

lemma Close_finish_keeps:
  assumes "Close_finish s = (e, s', es)"
  shows "s' = s\<lparr>s_qlogClosed := (s_qlogClosed s \<or> s_qlog s \<noteq> None)\<rparr>" and "e = s_connCloseErr s"
  using assms by (cases s; auto simp: Close_finish_def split: option.splits if_splits)+

text \<open>The steps of \<open>close\<close> and \<open>Close\<close>, and the spawning of a handler.\<close>

lemma arrival_ok:
  assumes "sys_ok st"
  shows "sys_ok (st\<lparr>sy_dgrams := ds\<rparr>)" and "sys_ok (st\<lparr>sy_streams := rss\<rparr>)"
  using assms
  by (intro sys_ok_session [OF assms, of "sy_session st"]; simp add: sys_ok_def)+

lemma loop_moves_ok:
  assumes "sys_ok st" and "thread st k c p" and "p = ReceivingDatagram \<or> p = AcceptingStream"
  shows "sys_ok (goto k c Exited (sy_session st) [] st)"
    and "sys_ok (goto k c (HandlingDatagram d) (sy_session st) [] (st\<lparr>sy_dgrams := ds\<rparr>))"
  using assms(1,3)
  by (intro goto_plain_ok [OF assms(1,2)]; auto simp: sys_ok_def role_ok_def)+

lemma accept_ok:
  assumes "sys_ok st" and "thread st k c AcceptingStream"
  shows "sys_ok (spawn \<lparr>g_counted = True, g_pc = ReadingFlowID rs\<rparr>
    (st\<lparr>sy_session := (sy_session st)\<lparr>s_wg := Suc (s_wg (sy_session st))\<rparr>, sy_streams := rss\<rparr>))"
proof -
  have c: "c"
    using threadD(2) [OF assms] by (simp add: role_ok_def split: if_splits)
  then have "0 < s_wg (sy_session st)"
    using wg_positive [OF assms(1), of k AcceptingStream] assms(2) by simp
  then show ?thesis
    by (intro spawn_ok [where s' = "(sy_session st)\<lparr>s_wg := Suc (s_wg (sy_session st))\<rparr>", OF assms(1)])
      (simp_all add: role_ok_def alive_def)
qed

lemma close_begin_ok:
  assumes "sys_ok st" and "thread st k c (Closing AtLock code why a)" and "sy_mutex st = None"
    and "s_closedErr (sy_session st) = None"
  shows "sys_ok (goto k c (Closing AtSendSnapshot code why a) ((sy_session st)\<lparr>s_closedErr := Some e\<rparr>) []
    (st\<lparr>sy_mutex := Some k\<rparr>))"
  using assms(1,3,4) threadD(2) [OF assms(1,2)]
  by (intro goto_ok [OF assms(1,2)]) (auto simp: sys_ok_def evolves_def shutdown_ok_def role_ok_def)

lemma close_part_ok:
  assumes "sys_ok st" and "thread st k c (Closing p code why a)" and "p \<noteq> AtLock" and "p \<noteq> AtCancel"
    and "close_step w code why p (sy_session st) = Done (p', s', es)"
  shows "sys_ok (goto k c (Closing p' code why a) s' es
    (st\<lparr>sy_connClosed := (sy_connClosed st \<or> p = AtConn)\<rparr>))"
proof -
  have core: "core_ok (sy_session st)" and m: "sy_mutex st = Some k"
    using assms(1) threadD(3) [OF assms(1,2)] assms(3) by (simp_all add: sys_ok_def)
  note cs = close_step_ok [OF core assms(3,4), of w code why, unfolded assms(5)]
  have ev: "evolves (sy_session st) s'" and same: "s_wg s' = s_wg (sy_session st)"
    "s_closedErr s' = s_closedErr (sy_session st)" "s_ctxDone s' = s_ctxDone (sy_session st)"
    "s_qlogClosed s' = s_qlogClosed (sy_session st)"
    using cs assms(1) m by (cases "p = AtConn"; auto simp: keeps_def evolves_def sys_ok_def shutdown_ok_def)+
  show ?thesis
    using assms(1) threadD(2) [OF assms(1,2)] cs m ev same
    by (intro goto_ok [OF assms(1,2)]) (auto simp: sys_ok_def shutdown_ok_def role_ok_def)
qed

lemma close_end_ok:
  assumes "sys_ok st" and "thread st k c (Closing AtCancel code why a)"
  shows "sys_ok (goto k c (after_close c a) ((sy_session st)\<lparr>s_ctxDone := True\<rparr>) []
    (st\<lparr>sy_mutex := None\<rparr>))"
proof -
  have m: "sy_mutex st = Some k" and conn: "sy_connClosed st"
    using assms(1) threadD(3) [OF assms] assms(2) by (auto simp: sys_ok_def shutdown_ok_def)
  then have "s_closedErr (sy_session st) \<noteq> None" "\<not> s_ctxDone (sy_session st)" "\<not> s_qlogClosed (sy_session st)"
    using assms(1) by (auto simp: sys_ok_def shutdown_ok_def wg_ok_def)
  then show ?thesis
    using assms(1) threadD(2) [OF assms] m conn
    by (intro goto_ok [OF assms])
      (auto simp: sys_ok_def evolves_def after_close_def handled_def role_ok_def split: after.splits)
qed

lemma finish_ok:
  assumes "sys_ok st" and "thread st k c Finishing" and "sy_mutex st = None"
    and "Close_finish (sy_session st) = (e, s', es)"
  shows "sys_ok (goto k c (CloseReturned e) s' es st)"
  using Close_finish_keeps [OF assms(4)] threadD(1,2) [OF assms(1,2)] assms(1,3)
  by (intro goto_ok [OF assms(1,2)])
    (auto simp: sys_ok_def evolves_def shutdown_ok_def role_ok_def split: if_splits)

context quicvarint
begin

lemma sys_step_ok:
  assumes "sys_ok st" and "sys_step V l st st'"
  shows "sys_ok st'"
proof -
  have core: "core_ok (sy_session st)"
    using assms(1) by (simp add: sys_ok_def)
  note plain = goto_plain_ok [OF assms(1)] and td = threadD [OF assms(1)]
  from assms(2) show ?thesis
  proof cases
    case (call p)
    then have "pc_ok (sy_session st) p" "role_ok False p" "\<not> in_region p"
      by (cases p; simp add: role_ok_def)+
    then show ?thesis
      unfolding call(2) by (intro spawn_ok [where s' = "sy_session st", OF assms(1)]) (simp_all add: alive_def)
  next
    case (call_flow op w s' es)
    then show ?thesis
      using flow_call_core [OF quicvarint_axioms core] flow_call_keeps
      by (intro sys_ok_session [OF assms(1)]) simp_all
  next
    case (read_flow_id k c rs rs' p es)
    then show ?thesis
      using flow_id_step_ok [OF read_flow_id(4)] core by (auto intro!: plain [OF read_flow_id(2)])
  next
    case (read_frame k c r rs rs' pick p s' es)
    have "st_flow (s_rstore (sy_session st)) r \<noteq> None"
      using td(1) [OF read_frame(2)] by simp
    from frame_step_ok [OF core this, of pick rs' c] show ?thesis
      unfolding read_frame(1) using read_frame(4) by (intro plain [OF read_frame(2)]) simp_all
  next
    case (local k c p w p' s' es)
    have "p \<noteq> Exited" and "\<not> in_region p"
      using local(4) by (auto elim: is_local.elims)
    with local_step_ok [OF core td(1) [OF local(3)] local(4), of w c] td(2) [OF local(3)] show ?thesis
      unfolding local(2) using local(5) by (intro plain [OF local(3)]) simp_all
  next
    case (close_again k c code why a)
    have "s_ctxDone (sy_session st)"
      using assms(1) close_again(4,5) by (simp add: sys_ok_def shutdown_ok_def)
    then show ?thesis
      unfolding close_again(2) using core td(2) [OF close_again(3)]
      by (intro plain [OF close_again(3)])
        (auto simp: after_close_def handled_def role_ok_def split: after.splits)
  next
    case (waited k c)
    show ?thesis
      unfolding waited(2) using core td(1,2) [OF waited(3)] waited(4)
      by (intro plain [OF waited(3)]) (simp_all add: role_ok_def split: if_splits)
  next
    case (check_receive k c i p)
    show ?thesis
      unfolding check_receive(2) using core td(2) [OF check_receive(3)]
      by (intro plain [OF check_receive(3)])
        (auto simp: check_receive(5) role_ok_def split: option.splits if_splits)
  next
    case (check_send k c i p)
    show ?thesis
      unfolding check_send(2) using core td(1,2) [OF check_send(3)]
      by (intro plain [OF check_send(3)])
        (auto simp: check_send(5) role_ok_def split: option.splits if_splits)
  qed (auto intro: arrival_ok loop_moves_ok accept_ok close_begin_ok close_part_ok close_end_ok finish_ok
      assms(1))
qed

end

section \<open>Reachable states\<close>

lemma sys_init_fields [simp]:
  "sy_session (sys_init s gs) = s" "sy_threads (sys_init s gs) = gs" "sy_mutex (sys_init s gs) = None"
  "\<not> sy_connClosed (sys_init s gs)"
  by (simp_all add: sys_init_def)

lemma sys_init_ok:
  assumes "session_ok s" and "s_wg s = length (filter alive gs)" and "s_closedErr s = None"
    and "\<not> s_qlogClosed s"
    and "\<forall>g \<in> set gs. g_counted g \<and> (g_pc g = ReceivingDatagram \<or> g_pc g = AcceptingStream)"
  shows "sys_ok (sys_init s gs)"
proof -
  have "\<not> s_ctxDone s"
    using assms(1,3) by (simp add: session_ok_def closed_ok_def)
  moreover have "\<not> in_region p" if "thread (sys_init s gs) k c p" for k c p
    using thread_mem [OF that] assms(5) by auto
  moreover have "threads_ok (sys_init s gs)"
    using assms(5) by (auto simp: threads_ok_def role_ok_def)
  ultimately show ?thesis
    using assms(1-4) session_ok_core [OF assms(1)]
    by (fastforce simp: sys_ok_def wg_ok_def mutex_ok_def shutdown_ok_def)
qed

lemma new_session_sys_ok:
  assumes "\<And>opt. Some opt \<in> set opts \<Longrightarrow> library_option opt"
  shows "NewSession conn accept opts = Inr s \<Longrightarrow> sys_ok (sys_init s (loops accept))"
    and "NewSessionWithAppHandledConn conn accept opts = Inr s \<Longrightarrow> sys_ok (sys_init s [])"
proof -
  assume n: "NewSession conn accept opts = Inr s"
  then have "s_wg s = length (filter alive (loops accept))" "s_closedErr s = None" "\<not> s_qlogClosed s"
    by (auto simp: NewSession_def start_def newSession_def loops_def alive_def split: option.splits sum.splits)
  moreover have "session_ok s"
    using session_init_ok n assms by blast
  ultimately show "sys_ok (sys_init s (loops accept))"
    by (intro sys_init_ok) (auto simp: loops_def)
next
  assume n: "NewSessionWithAppHandledConn conn accept opts = Inr s"
  then have "s_wg s = 0" "s_closedErr s = None" "\<not> s_qlogClosed s"
    by (auto simp: NewSessionWithAppHandledConn_def newSession_def split: option.splits sum.splits)
  moreover have "session_ok s"
    using session_init_ok n assms by blast
  ultimately show "sys_ok (sys_init s [])"
    by (intro sys_init_ok) auto
qed

context quicvarint
begin

lemma sys_reach_ok: "sys_reach V st \<Longrightarrow> sys_ok st"
  by (induction rule: sys_reach.induct) (blast intro: new_session_sys_ok sys_step_ok)+

end

text \<open>A running session for concrete instances, and the same with a datagram to handle.\<close>

definition running :: sys where
  "running = sys_init (start (newSession \<lparr>conn_QlogTrace = None\<rparr> True default_config)) (loops True)"

definition running_datagram :: sys where
  "running_datagram = spawn \<lparr>g_counted = False, g_pc = HandlingDatagram [7, 1]\<rparr> running"

lemma running_reach: "sys_reach V running" "sys_reach V running_datagram"
proof -
  show "sys_reach V running"
    unfolding running_def
    by (rule sys_reach.new [of "Some \<lparr>conn_QlogTrace = None\<rparr>" True "[]"])
      (simp_all add: NewSession_def newSessionConfig_def)
  then show "sys_reach V running_datagram"
    unfolding running_datagram_def by (rule sys_reach.step [OF _ call]) simp
qed

lemma running_fields:
  "sy_threads running_datagram = loops True @ [\<lparr>g_counted = False, g_pc = HandlingDatagram [7, 1]\<rparr>]"
  "s_wg (sy_session running_datagram) = 2" "s_closedErr (sy_session running_datagram) = None"
  by (simp_all add: running_datagram_def running_def spawn_def start_def newSession_def)

section \<open>The steps make up the calls\<close>







section \<open>Properties\<close>



text \<open>C6: \<open>Close\<close> waits. In every reachable state the wait group counts the goroutines of the session
  that run; when a call of \<open>Close\<close> has returned, all of them have, the qlog recorder is closed, and the
  call reported what closing the connection returned; the recorder is never closed while one of them
  runs.\<close>

theorem close_waits:
  assumes "quicvarint V" and "sys_reach V st"
  shows "s_wg (sy_session st) = length (filter alive (sy_threads st)) \<and>
    (s_qlogClosed (sy_session st) \<longrightarrow> (\<forall>g \<in> set (sy_threads st). \<not> alive g)) \<and>
    (\<forall>k c e. thread st k c (CloseReturned e) \<longrightarrow>
       e = s_connCloseErr (sy_session st) \<and> isClosed (sy_session st) \<noteq> None \<and>
       (s_qlog (sy_session st) \<noteq> None \<longrightarrow> s_qlogClosed (sy_session st)) \<and>
       (\<forall>g \<in> set (sy_threads st). \<not> alive g))"
proof -
  have ok: "sys_ok st"
    using quicvarint.sys_reach_ok [OF assms] .
  have wg: "s_wg (sy_session st) = length (filter alive (sy_threads st))"
    and q: "s_qlogClosed (sy_session st) \<longrightarrow> s_wg (sy_session st) = 0"
    using ok by (auto simp: sys_ok_def wg_ok_def)
  have none: "\<forall>g \<in> set (sy_threads st). \<not> alive g" if "s_wg (sy_session st) = 0"
    using wg that by (simp add: filter_empty_conv)
  have "s_ctxDone (sy_session st) \<longrightarrow> isClosed (sy_session st) \<noteq> None"
    using ok by (auto simp: sys_ok_def shutdown_ok_def isClosed_def)
  then show ?thesis
    using wg q none threadD(1) [OF ok, of _ _ "CloseReturned _"] by fastforce
qed

theorem close_waits_witness:
  "s_wg (sy_session running_datagram) = 2 \<and> length (filter alive (sy_threads running_datagram)) = 2"
  using close_waits [OF rfc.quicvarint_axioms running_reach(2)] running_fields(2) by simp

section \<open>A flow created while the session closes\<close>

lemma close_run_without_flows:
  assumes "sys_reach V st" and "thread st k c (Closing AtLock code why a)" and "sy_mutex st = None"
    and "s_closedErr (sy_session st) = None" and "elements (s_sendFlows (sy_session st)) = []"
    and "elements (s_receiveFlows (sy_session st)) = []"
  obtains st' where "sys_reach V st'"
    "sy_session st' = wg_Done c (after_close c a) ((sy_session st)
       \<lparr>s_closedErr := Some (SessionErr \<lparr>se_code = code, se_reason = why\<rparr>), s_connCloseErr := e,
        s_ctxDone := True\<rparr>)"
    "sy_threads st' = (sy_threads st)[k := \<lparr>g_counted = c, g_pc = after_close c a\<rparr>]"
    "sy_mutex st' = None" "sy_connClosed st'"
proof -
  obtain w :: outside where w: "cr_conn (out_close w) = e"
    by (metis close_results.select_convs(2) outside.select_convs(3))
  let ?C = "\<lambda>p. Closing p code why a"
  define s1 where "s1 = (sy_session st)\<lparr>s_closedErr := Some (SessionErr \<lparr>se_code = code, se_reason = why\<rparr>)\<rparr>"
  define st1 where "st1 = goto k c (?C AtSendSnapshot) s1 [] (st\<lparr>sy_mutex := Some k\<rparr>)"
  have wg: "wg_Done c (?C p) s = s" for p s
    by (simp add: wg_Done_def)
  have part: "\<exists>st'. sys_reach V st' \<and> thread st' k c (?C p') \<and> sy_session st' = s' \<and>
      sy_threads st' = (sy_threads st)[k := \<lparr>g_counted = c, g_pc = ?C p'\<rparr>] \<and>
      (p = AtConn \<longrightarrow> sy_connClosed st')"
    if "sys_reach V t" "thread t k c (?C p)" "p \<noteq> AtLock" "p \<noteq> AtCancel"
      "sy_threads t = (sy_threads st)[k := \<lparr>g_counted = c, g_pc = ?C p\<rparr>]"
      "close_step w code why p (sy_session t) = Done (p', s', es)" for t p p' s' es
    using sys_reach.step [OF that(1) close_part [OF that(2-4,6)]] that(2,5)
    by (intro exI conjI) (auto simp: thread_def goto_def wg)
  have "sys_reach V st1" "thread st1 k c (?C AtSendSnapshot)"
    "sy_threads st1 = (sy_threads st)[k := \<lparr>g_counted = c, g_pc = ?C AtSendSnapshot\<rparr>]" "sy_session st1 = s1"
    using sys_reach.step [OF assms(1) close_begin [OF assms(2-4) refl]] assms(2)
    by (auto simp: st1_def s1_def thread_def goto_def wg)
  then obtain st2 where "sys_reach V st2" "thread st2 k c (?C (AtSend []))" "sy_session st2 = s1"
    "sy_threads st2 = (sy_threads st)[k := \<lparr>g_counted = c, g_pc = ?C (AtSend [])\<rparr>]"
    using part [of st1 AtSendSnapshot "AtSend []" s1 "[]"] assms(5) by (auto simp: s1_def)
  then obtain st3 where "sys_reach V st3" "thread st3 k c (?C AtReceiveSnapshot)" "sy_session st3 = s1"
    "sy_threads st3 = (sy_threads st)[k := \<lparr>g_counted = c, g_pc = ?C AtReceiveSnapshot\<rparr>]"
    using part [of st2 "AtSend []" AtReceiveSnapshot s1 "[]"] by auto
  then obtain st4 where "sys_reach V st4" "thread st4 k c (?C (AtReceive []))" "sy_session st4 = s1"
    "sy_threads st4 = (sy_threads st)[k := \<lparr>g_counted = c, g_pc = ?C (AtReceive [])\<rparr>]"
    using part [of st3 AtReceiveSnapshot "AtReceive []" s1 "[]"] assms(6) by (auto simp: s1_def)
  then obtain st5 where "sys_reach V st5" "thread st5 k c (?C AtConn)" "sy_session st5 = s1"
    "sy_threads st5 = (sy_threads st)[k := \<lparr>g_counted = c, g_pc = ?C AtConn\<rparr>]"
    using part [of st4 "AtReceive []" AtConn s1 "[]"] by auto
  then obtain st6 where st6: "sys_reach V st6" "thread st6 k c (?C AtCancel)"
    "sy_session st6 = s1\<lparr>s_connCloseErr := e\<rparr>" "sy_connClosed st6"
    "sy_threads st6 = (sy_threads st)[k := \<lparr>g_counted = c, g_pc = ?C AtCancel\<rparr>]"
    using part [of st5 AtConn AtCancel "s1\<lparr>s_connCloseErr := e\<rparr>"] w by auto
  show thesis
    using st6 by (intro that [OF sys_reach.step [OF st6(1) close_end [OF st6(2) refl]]])
      (simp_all add: goto_def s1_def)
qed

text \<open>C36: creating a flow and closing the session race. \<open>NewReceiveFlow\<close> checks that the session is open,
  and registers the flow later, under another lock; a \<open>Close\<close> that runs in between does not see the
  flow. A session can thus be closed, its context cancelled, and have a registered receive flow that is
  open, is not cancelled, and whose \<open>Read\<close> waits for ever.\<close>

theorem late_flow_stays_open:
  "\<exists>st r f. sys_reach V st \<and> isClosed (sy_session st) \<noteq> None \<and> s_ctxDone (sy_session st) \<and>
     sy_connClosed st \<and> sy_mutex st = None \<and> thread st 0 False (GotFlow (Inr r)) \<and>
     sm_get (s_receiveFlows (sy_session st)) 7 = Some r \<and> st_flow (s_rstore (sy_session st)) r = Some f \<and>
     \<not> rf_closed f \<and> \<not> rf_ctxDone f \<and> Read n f = None"
proof -
  let ?G = "\<lambda>p. \<lparr>g_counted = False, g_pc = p\<rparr>"
  define s where "s = newSession \<lparr>conn_QlogTrace = None\<rparr> True default_config"
  have s: "s_closedErr s = None" "elements (s_sendFlows s) = []" "elements (s_receiveFlows s) = []"
    "core_ok s" "sm_get (s_receiveFlows s) 7 = None" "map_of (rfb_buffer (s_receiveFlowBuffer s)) 7 = None"
    using newSession_ok(1) [OF config_ok_default]
    by (auto simp: s_def newSession_def newSyncMap_def sm_get_def newReceiveFlowBuffer_def
        intro: session_ok_core)
  define st0 where "st0 = sys_init s []"
  have "sys_reach V st0"
    unfolding st0_def s_def
    by (rule sys_reach.new_app [of "Some \<lparr>conn_QlogTrace = None\<rparr>" True "[]"])
      (simp_all add: NewSessionWithAppHandledConn_def newSessionConfig_def)
  then have "sys_reach V (spawn (?G (NewReceive 7)) st0)"
    by (rule sys_reach.step [OF _ call]) simp
  from sys_reach.step [OF this check_receive [where k = 0 and c = False and i = 7, OF _ _ refl]]
  have "sys_reach V (goto 0 False (NewReceiveLocked 7) s [] (spawn (?G (NewReceive 7)) st0))"
    by (simp add: thread_def spawn_def st0_def isClosed_def s(1))
  then have "sys_reach V (spawn (?G (Closing AtLock ErrRoQNoError '''' WaitForLoops))
      (goto 0 False (NewReceiveLocked 7) s [] (spawn (?G (NewReceive 7)) st0)))"
    by (rule sys_reach.step [OF _ call]) simp
  then obtain st where st: "sys_reach V st" "sy_threads st = [?G (NewReceiveLocked 7), ?G Waiting]"
    "sy_session st = s\<lparr>s_closedErr := Some (SessionErr \<lparr>se_code = ErrRoQNoError, se_reason = ''''\<rparr>),
       s_connCloseErr := None, s_ctxDone := True\<rparr>" "sy_mutex st = None" "sy_connClosed st"
    by (rule close_run_without_flows [where k = 1 and c = False and e = None and a = WaitForLoops])
      (simp_all add: thread_def spawn_def goto_def st0_def s(1-3) wg_Done_def after_close_def)
  obtain f r b store where f: "NewReceiveFlow_locked (sy_session st) 7 = Done (Inr r, (sy_session st)
      \<lparr>s_receiveFlowBuffer := b, s_rstore := store, s_receiveFlows := sm_set 7 r (s_receiveFlows (sy_session st))\<rparr>)"
    "newReceiveFlow 7 (s_receiveBufferSize s) (s_qlog s) (Some (s_logger s)) = Done f"
    "st_alloc f (s_rstore s) = (r, store)"
  proof -
    obtain f where f: "newReceiveFlow 7 (s_receiveBufferSize s) (s_qlog s) (Some (s_logger s)) = Done f"
      using new_flow_ok [of "s_receiveBufferSize s" 7 "s_qlog s" "Some (s_logger s)"] core_okD(1) [OF s(4)]
      by (auto simp: recv_ok_def)
    moreover obtain r store where "st_alloc f (s_rstore s) = (r, store)"
      by (cases "st_alloc f (s_rstore s)")
    moreover obtain b where "pop (s_receiveFlowBuffer s) 7 = (None, b)"
      using s(6) by (simp add: pop_def)
    ultimately show thesis
      using s(5) st(3) by (intro that [where r = r and b = b and store = store and f = f]) (simp_all add: NewReceiveFlow_locked_def)
  qed
  have "sys_reach V (goto 0 False (GotFlow (Inr r)) ((sy_session st)
      \<lparr>s_receiveFlowBuffer := b, s_rstore := store, s_receiveFlows := sm_set 7 r (s_receiveFlows (sy_session st))\<rparr>)
      [] st)"
    by (rule sys_reach.step [OF st(1) local [where p = "NewReceiveLocked 7"]])
      (simp_all add: thread_def st(2) f(1))
  moreover have "Read n f = None" "st_flow store r = Some f"
    using f(2,3) by (auto simp: newReceiveFlow_def Read_def Read_begin_def Read_packet_def chan_make_def
        chan_recv_def st_alloc_def split: if_splits)
  ultimately show ?thesis
    using st(2-5) rf_new_fields(4,5) [OF f(2)]
    by (intro exI [of _ "goto 0 False (GotFlow (Inr r)) ((sy_session st)
        \<lparr>s_receiveFlowBuffer := b, s_rstore := store, s_receiveFlows := sm_set 7 r (s_receiveFlows (sy_session st))\<rparr>)
        [] st"] exI [of _ r] exI [of _ f])
      (simp add: goto_def wg_Done_def thread_def isClosed_def sm_get_update)
qed

text \<open>Goroutines at rest: only the application can move a session whose goroutines have all returned.\<close>

definition at_rest :: "pc \<Rightarrow> bool" where
  "at_rest p \<longleftrightarrow> p = Exited \<or> (\<exists>x. p = GotFlow x) \<or> (\<exists>e. p = CloseReturned e)"

lemma all_at_rest:
  assumes "\<And>m c p. thread st m c p \<Longrightarrow> at_rest p" and "sys_step V l st st'"
  shows "l = Arrival \<or> l = Call"
  using assms(2) by cases (auto simp: at_rest_def dest!: assms(1))

text \<open>C35: a lost connection closes nothing. When the connection fails, both receive loops return and
  drop the error; the session is otherwise as it was: it is not closed, its flows are open, a \<open>Read\<close>
  that waits keeps waiting, and no step of the session itself is left that could change this.\<close>

theorem connection_loss_unnoticed:
  assumes "thread st j True ReceivingDatagram" and "thread st k True AcceptingStream"
    and "\<forall>m c p. thread st m c p \<longrightarrow> m \<noteq> j \<longrightarrow> m \<noteq> k \<longrightarrow> at_rest p"
  shows "\<exists>st1 st2. sys_step V Input st st1 \<and> sys_step V Input st1 st2 \<and>
    sy_session st2 = (sy_session st)\<lparr>s_wg := s_wg (sy_session st) - 2\<rparr> \<and>
    (\<forall>l st3. sys_step V l st2 st3 \<longrightarrow> l = Arrival \<or> l = Call)"
proof -
  let ?st1 = "goto j True Exited (sy_session st) [] st"
  let ?st2 = "goto k True Exited (sy_session ?st1) [] ?st1"
  have jk: "j \<noteq> k" and len: "j < length (sy_threads st)" "k < length (sy_threads st)"
    using assms(1,2) by (auto simp: thread_def)
  have "sys_step V Input st ?st1"
    by (rule datagrams_end [OF assms(1)]) simp
  moreover have "thread ?st1 k True AcceptingStream"
    using assms(2) jk by (simp add: thread_def goto_def)
  then have "sys_step V Input ?st1 ?st2"
    by (rule accept_end) simp
  moreover have "sy_session ?st2 = (sy_session st)\<lparr>s_wg := s_wg (sy_session st) - 2\<rparr>"
    by (simp add: goto_def wg_Done_def)
  moreover have "at_rest p" if "thread ?st2 m c p" for m c p
  proof (cases "m = j \<or> m = k")
    case True
    then have "p = Exited"
      using that jk len by (auto simp: thread_def goto_def nth_list_update)
    then show ?thesis
      by (simp add: at_rest_def)
  next
    case False
    then have "thread st m c p"
      using that by (simp add: thread_def goto_def)
    then show ?thesis
      using assms(3) False by blast
  qed
  ultimately show ?thesis
    using all_at_rest by blast
qed

theorem connection_loss_unnoticed_witness:
  "\<exists>st1 st2. sys_step rfc9000 Input (sys_init (start sample) (loops True)) st1 \<and> sys_step rfc9000 Input st1 st2 \<and>
     s_closedErr (sy_session st2) = None \<and> s_wg (sy_session st2) = 0"
proof -
  let ?st = "sys_init (start sample) (loops True)"
  have t: "thread ?st 0 True ReceivingDatagram" "thread ?st 1 True AcceptingStream"
    by (simp_all add: thread_def sys_init_def loops_def)
  have o: "\<forall>m c p. thread ?st m c p \<longrightarrow> m \<noteq> 0 \<longrightarrow> m \<noteq> 1 \<longrightarrow> at_rest p"
    by (simp add: thread_def sys_init_def loops_def)
  have "s_closedErr (start sample) = None" "s_wg (start sample) = 2"
    by (simp_all add: start_def sample_fields sample_eval)
  then show ?thesis
    using connection_loss_unnoticed [OF t o, of rfc9000] by (force simp: sys_init_def)
qed

end
