(* ===== verification/Session_Liveness.thy ===== *)
theory Session_Liveness
  imports Session_Lifecycle
begin

text \<open>
  What \<open>Close\<close> promises of time: once a session is closed, its goroutines and all calls under way come
  to their end. Progress: as long as one of them has not returned, some goroutine can take a step
  that depends neither on the peer nor on the application. Termination: there is no infinite run of
  such steps, even with further input from the peer in between.
\<close>

section \<open>Progress\<close>

text \<open>Where a goroutine or a call has returned.\<close>

fun returned :: "pc \<Rightarrow> bool" where
  "returned Exited = True"
| "returned (CloseReturned e) = True"
| "returned (GotFlow res) = True"
| "returned _ = False"

context quicvarint
begin

text \<open>The holder of the mutex never waits.\<close>

lemma holder_runs:
  assumes "sys_ok st" and "sy_mutex st = Some k"
  shows "\<exists>st'. sys_step V Run st st'"
proof -
  obtain c p where th: "thread st k c p" "in_region p"
    using assms unfolding sys_ok_def mutex_ok_def by blast
  then obtain q code why a where p: "p = Closing q code why a" "q \<noteq> AtLock"
    by (cases p) auto
  have core: "core_ok (sy_session st)"
    using assms(1) by (simp add: sys_ok_def)
  show ?thesis
  proof (cases "q = AtCancel")
    case True
    then show ?thesis
      using th(1) p(1) close_end by blast
  next
    case False
    obtain w :: outside where True by simp
    obtain p' s' es where "close_step w code why q (sy_session st) = Done (p', s', es)"
      using close_step_ok [OF core p(2) False] by blast
    then show ?thesis
      using th(1) p False close_part by blast
  qed
qed

lemma unlocked_runs:
  assumes "sys_ok st" and "s_closedErr (sy_session st) \<noteq> None" and "sy_mutex st = None"
    and "thread st k c p" and "\<not> returned p" and "p \<noteq> Waiting"
  shows "\<exists>st'. sys_step V Run st st'"
proof -
  have dn: "s_ctxDone (sy_session st)" "sy_connClosed st" and core: "core_ok (sy_session st)"
    using assms(1-3) by (auto simp: sys_ok_def shutdown_ok_def)
  note td = threadD [OF assms(1,4)]
  obtain w :: outside where True by simp
  show ?thesis
  proof (cases "is_local p")
    case True
    then show ?thesis
      using local_step_ok [OF core td(1) True, of w c] local [OF assms(4) True] by blast
  next
    case False
    with assms(5,6) td(3) assms(3) consider
        "p = ReceivingDatagram" | "p = AcceptingStream" | (id) rs where "p = ReadingFlowID rs"
      | (frames) r rs where "p = ReadingFrames r rs" | (lock) code why a where "p = Closing AtLock code why a"
      | (fin) "p = Finishing" | (nr) i where "p = NewReceive i" | (ns) i where "p = NewSend i"
      by (cases p) auto
    then show ?thesis
    proof cases
      case id
      have "fetch (sy_connClosed st) Run rs (rs\<lparr>rs_data := take 0 (rs_data rs), rs_end := io_EOF\<rparr>)"
        unfolding dn(2) [THEN eqTrueI] by (rule fetch.cut)
      then show ?thesis
        using read_flow_id [OF assms(4) [unfolded id]] by (metis surj_pair)
    next
      case frames
      have "fetch (sy_connClosed st) Run rs (rs\<lparr>rs_data := take 0 (rs_data rs), rs_end := io_EOF\<rparr>)"
        unfolding dn(2) [THEN eqTrueI] by (rule fetch.cut)
      moreover have "st_flow (s_rstore (sy_session st)) r \<noteq> None"
        using td(1) frames by simp
      ultimately show ?thesis
        using frame_step_ok [OF core, of r] read_frame [OF assms(4) [unfolded frames]] by blast
    next
      case fin
      then show ?thesis
        using finish [OF assms(4) [unfolded fin] assms(3)] by (metis surj_pair)
    qed (use assms(2-4) dn(1) in \<open>blast intro: datagrams_end accept_end close_again check_receive check_send\<close>)+
  qed
qed

lemma progress:
  assumes "sys_ok st" and "s_closedErr (sy_session st) \<noteq> None" and "thread st k c p" and "\<not> returned p"
  shows "\<exists>st'. sys_step V Run st st'"
proof (cases "sy_mutex st")
  case (Some j)
  then show ?thesis
    using holder_runs [OF assms(1)] by blast
next
  case None
  show ?thesis
  proof (cases "p = Waiting \<and> 0 < s_wg (sy_session st)")
    case True
    then have "filter alive (sy_threads st) \<noteq> []"
      using assms(1) by (auto simp: sys_ok_def wg_ok_def)
    then obtain g where g: "g \<in> set (sy_threads st)" "alive g"
      by (auto simp: filter_empty_conv)
    then obtain j where j: "thread st j True (g_pc g)"
      using mem_thread [OF g(1)] by (auto simp: alive_def)
    have "loop_pc (g_pc g)"
      using threadD(2) [OF assms(1) j] by (simp add: role_ok_def)
    then have "\<not> returned (g_pc g)" "g_pc g \<noteq> Waiting"
      using g(2) by (auto simp: alive_def elim: returned.elims)
    then show ?thesis
      using unlocked_runs [OF assms(1,2) None j] by blast
  next
    case False
    then show ?thesis
      using unlocked_runs [OF assms(1,2) None assms(3,4)] waited assms(3) by blast
  qed
qed

end

section \<open>Termination\<close>

text \<open>
  How far a goroutine is from its end, apart from the parts of \<open>close\<close>; the bytes of its stream count,
  since every round of the loop of \<open>readStream\<close> takes some.
\<close>

fun weight :: "pc \<Rightarrow> nat" where
  "weight ReceivingDatagram = 1"
| "weight (HandlingDatagram d) = 5"
| "weight (PushingPacket r p) = 2"
| "weight AcceptingStream = 1"
| "weight (ReadingFlowID rs) = length (rs_data rs) + 7"
| "weight (LookingUpFlow i rs) = length (rs_data rs) + 6"
| "weight (Registering r rs) = length (rs_data rs) + 5"
| "weight (ReadingFrames r rs) = length (rs_data rs) + 4"
| "weight (Unregistering r rs) = 3"
| "weight Exited = 0"
| "weight (Closing p code why a) = (case a of LoopAgain \<Rightarrow> 2 | WaitForLoops \<Rightarrow> 3)"
| "weight Waiting = 2"
| "weight Finishing = 1"
| "weight (CloseReturned e) = 0"
| "weight (NewReceive i) = 2"
| "weight (NewReceiveLocked i) = 1"
| "weight (NewSend i) = 2"
| "weight (NewSendUnlocked i) = 1"
| "weight (GotFlow res) = 0"

definition work :: "sys \<Rightarrow> nat" where
  "work st = (\<Sum>g \<leftarrow> sy_threads st. weight (g_pc g)) + 6 * length (sy_dgrams st) +
     (\<Sum>rs \<leftarrow> sy_streams st. length (rs_data rs) + 8)"

text \<open>What is left of \<open>close\<close>: the flows to close, and those of the snapshots still to be taken.\<close>

fun close_left :: "Session \<Rightarrow> pc \<Rightarrow> nat" where
  "close_left s (Closing AtSendSnapshot code why a) =
     length (elements (s_sendFlows s)) + length (elements (s_receiveFlows s)) + 7"
| "close_left s (Closing (AtSend xs) code why a) = length xs + length (elements (s_receiveFlows s)) + 6"
| "close_left s (Closing AtReceiveSnapshot code why a) = length (elements (s_receiveFlows s)) + 5"
| "close_left s (Closing (AtReceive xs) code why a) = length xs + 4"
| "close_left s (Closing AtConn code why a) = 3"
| "close_left s (Closing AtCancel code why a) = 2"
| "close_left s _ = 0"

definition close_work :: "sys \<Rightarrow> nat" where
  "close_work st = (\<Sum>g \<leftarrow> sy_threads st. close_left (sy_session st) (g_pc g))"

lemma fetch_length: "fetch closed l rs rs' \<Longrightarrow> length (rs_data rs') \<le> length (rs_data rs)"
  by (induction rule: fetch.induct) auto

lemma local_step_weight:
  assumes "local_step V w c p s = Done (p', s', es)" and "is_local p"
  shows "weight p' < weight p"
  using assms
  by (cases p) (auto simp: HandleDatagram_lookup_def handled_def bind_outcome_Done_iff Let_def
      split: sum.splits option.splits prod.splits if_splits)

lemma frame_step_weight:
  assumes "frame_step V pick r rs' s = Done (p', s', es)" and "length (rs_data rs') \<le> length (rs_data rs)"
  shows "weight p' < weight (ReadingFrames r rs)"
  using assms readStream_iter_consumes [of V pick _ rs']
  by (fastforce simp: frame_step_def bind_outcome_Done_iff split: option.splits prod.splits if_splits)

lemma after_close_weight: "weight (after_close c a) < weight (Closing p code why a)"
  by (simp add: after_close_def handled_def split: after.split)

text \<open>A goroutine moves on and the rest stays: less work.\<close>

lemma work_goto:
  assumes "thread st k c p" and "weight p' + 6 * length (sy_dgrams st1) < weight p + 6 * length (sy_dgrams st)"
    and "sy_threads st1 = sy_threads st" and "sy_streams st1 = sy_streams st"
  shows "work (goto k c p' s es st1) < work st"
proof -
  have k: "k < length (sy_threads st)" "sy_threads st ! k = \<lparr>g_counted = c, g_pc = p\<rparr>"
    using assms(1) by (simp_all add: thread_def)
  have "(\<Sum>g \<leftarrow> (sy_threads st)[k := \<lparr>g_counted = c, g_pc = p'\<rparr>]. weight (g_pc g)) + weight p
      = (\<Sum>g \<leftarrow> sy_threads st. weight (g_pc g)) + weight p'"
    using sum_list_update_eq [OF k(1), of "\<lambda>g. weight (g_pc g)" "\<lparr>g_counted = c, g_pc = p'\<rparr>"] k(2) by simp
  then show ?thesis
    using assms(2-4) by (simp add: work_def goto_def)
qed

lemma close_step_left:
  assumes "core_ok s" and "p \<noteq> AtLock" and "p \<noteq> AtCancel"
    and "close_step w code why p s = Done (p', s', es)"
  shows "close_left s' (Closing p' code why a) < close_left s (Closing p code why a)"
    and "close_left s' q \<le> close_left s q"
proof -
  have le: "length (elements (s_sendFlows s')) \<le> length (elements (s_sendFlows s)) \<and>
      s_receiveFlows s' = s_receiveFlows s"
  proof (cases "(w, code, why, p, s)" rule: close_step.cases)
    case (3 w' c why' i ref xs s0)
    obtain e s1 es1 where c: "close_send_flow (out_deref w) (cr_stream (out_close w)) ref s = (e, s1, es1)"
      by (cases "close_send_flow (out_deref w) (cr_stream (out_close w)) ref s")
    show ?thesis
      using close_send_flow_core [OF assms(1) c] 3 c assms(4) by simp
  next
    case (6 w' c why' i r xs s0)
    then show ?thesis
      using close_receive_flow_core [OF assms(1), of r] assms(4) by auto
  qed (use assms in auto)
  show "close_left s' (Closing p' code why a) < close_left s (Closing p code why a)"
    using le assms(2-4)
    by (cases "(w, code, why, p, s)" rule: close_step.cases) (auto simp: bind_outcome_Done_iff split: prod.splits)
  show "close_left s' q \<le> close_left s q"
    using le by (cases "(s, q)" rule: close_left.cases) auto
qed

lemma close_part_work:
  assumes "thread st k c p" and "close_left s' p' < close_left (sy_session st) p"
    and "\<And>q. close_left s' q \<le> close_left (sy_session st) q" and "weight p' = weight p"
    and "p' \<noteq> Exited" and "sy_threads st1 = sy_threads st" and "sy_streams st1 = sy_streams st"
    and "sy_dgrams st1 = sy_dgrams st"
  shows "work (goto k c p' s' es st1) = work st" and "close_work (goto k c p' s' es st1) < close_work st"
proof -
  have k: "k < length (sy_threads st)" "sy_threads st ! k = \<lparr>g_counted = c, g_pc = p\<rparr>"
    using assms(1) by (simp_all add: thread_def)
  let ?g = "\<lparr>g_counted = c, g_pc = p'\<rparr>"
  have "(\<Sum>g \<leftarrow> (sy_threads st)[k := ?g]. weight (g_pc g)) + weight p
      = (\<Sum>g \<leftarrow> sy_threads st. weight (g_pc g)) + weight p'"
    using sum_list_update_eq [OF k(1), of "\<lambda>g. weight (g_pc g)" ?g] k(2) by simp
  then show "work (goto k c p' s' es st1) = work st"
    using assms(4,6-8) by (simp add: work_def goto_def)
  have "(\<Sum>g \<leftarrow> (sy_threads st)[k := ?g]. close_left s' (g_pc g)) + close_left s' p
      = (\<Sum>g \<leftarrow> sy_threads st. close_left s' (g_pc g)) + close_left s' p'"
    using sum_list_update_eq [OF k(1), of "\<lambda>g. close_left s' (g_pc g)" ?g] k(2) by simp
  moreover have "(\<Sum>g \<leftarrow> sy_threads st. close_left s' (g_pc g)) + close_left (sy_session st) p
      \<le> (\<Sum>g \<leftarrow> sy_threads st. close_left (sy_session st) (g_pc g)) + close_left s' p"
    using sum_list_mono_at [OF k(1), of "\<lambda>g. close_left s' (g_pc g)" "\<lambda>g. close_left (sy_session st) (g_pc g)"]
      assms(3) k(2) by simp
  ultimately show "close_work (goto k c p' s' es st1) < close_work st"
    using assms(2,5,6) by (simp add: close_work_def goto_def wg_Done_def)
qed

text \<open>The steps of the goroutines and the input from the peer, without new arrivals and calls.\<close>

definition goes :: "varint_lib \<Rightarrow> sys \<Rightarrow> sys \<Rightarrow> bool" where
  "goes V st st' \<longleftrightarrow> sys_step V Run st st' \<or> sys_step V Input st st'"

context quicvarint
begin

lemma flow_id_step_weight:
  assumes "flow_id_step V rs' = (p, es)" and "length (rs_data rs') \<le> length (rs_data rs)"
  shows "weight p < weight (ReadingFlowID rs)"
proof (cases "vi_Parse V (rs_data rs')")
  case (Inl e)
  then obtain e' r' where "vi_Read V rs' = (Inl e', r')"
    using Read_fail by blast
  then show ?thesis
    using assms by (auto simp: flow_id_step_def)
next
  case (Inr x)
  then obtain v n where "vi_Parse V (rs_data rs') = Inr (v, n)"
    by (cases x) auto
  then show ?thesis
    using assms Read_ok [of rs' v n] by (auto simp: flow_id_step_def)
qed

lemma goes_less:
  assumes "sys_ok st" and "s_closedErr (sy_session st) \<noteq> None" and "goes V st st'"
  shows "((work st', close_work st'), (work st, close_work st)) \<in> less_than <*lex*> less_than"
proof -
  have core: "core_ok (sy_session st)"
    using assms(1) by (simp add: sys_ok_def)
  obtain l where l: "l = Run \<or> l = Input" and "sys_step V l st st'"
    using assms(3) by (auto simp: goes_def)
  from this(2) show ?thesis
  proof cases
    case (take_datagram k c d ds)
    then have "work st' < work st"
      unfolding take_datagram(2) by (intro work_goto [OF take_datagram(3)]) simp_all
    then show ?thesis by simp
  next
    case (accept k c rs rss s')
    then have "work st' < work st"
      by (simp add: work_def spawn_def)
    then show ?thesis by simp
  next
    case (read_flow_id k c rs rs' p es)
    then have "work st' < work st"
      unfolding read_flow_id(1) using flow_id_step_weight [OF read_flow_id(4) fetch_length [OF read_flow_id(3)]]
      by (intro work_goto [OF read_flow_id(2)]) simp_all
    then show ?thesis by simp
  next
    case (read_frame k c r rs rs' pick p s' es)
    then have "work st' < work st"
      unfolding read_frame(1) using frame_step_weight [OF read_frame(4) fetch_length [OF read_frame(3)]]
      by (intro work_goto [OF read_frame(2)]) simp_all
    then show ?thesis by simp
  next
    case (local k c p w p' s' es)
    then have "work st' < work st"
      unfolding local(2) using local_step_weight [OF local(5,4)] by (intro work_goto [OF local(3)]) simp_all
    then show ?thesis by simp
  next
    case (close_again k c code why a)
    then have "work st' < work st"
      unfolding close_again(2) using after_close_weight [of c a] by (intro work_goto [OF close_again(3)]) auto
    then show ?thesis by simp
  next
    case (close_end k c code why a s')
    then have "work st' < work st"
      unfolding close_end(2) using after_close_weight [of c a] by (intro work_goto [OF close_end(3)]) auto
    then show ?thesis by simp
  next
    case (close_part k c p code why a w p' s' es)
    have "work st' = work st" "close_work st' < close_work st"
      unfolding close_part(2)
      by (rule close_part_work [OF close_part(3)];
          use close_step_left [OF core close_part(4-6)] in simp)+
    then show ?thesis by simp
  next
    case (check_receive k c i p)
    have "weight p < 2"
      by (simp add: check_receive(5) split: option.split)
    then have "work st' < work st"
      unfolding check_receive(2) by (intro work_goto [OF check_receive(3)]) simp_all
    then show ?thesis by simp
  next
    case (check_send k c i p)
    have "weight p < 2"
      by (simp add: check_send(5) split: option.split)
    then have "work st' < work st"
      unfolding check_send(2) by (intro work_goto [OF check_send(3)]) simp_all
    then show ?thesis by simp
  qed (use l assms(2) in \<open>auto intro: work_goto\<close>)
qed

lemma goes_ok: "sys_ok st \<Longrightarrow> goes V st st' \<Longrightarrow> sys_ok st'"
  using sys_step_ok by (auto simp: goes_def)

text \<open>A closed session stays closed.\<close>

lemma sys_step_closed:
  assumes "sys_ok st" and "s_closedErr (sy_session st) \<noteq> None" and "sys_step V l st st'"
  shows "s_closedErr (sy_session st') \<noteq> None"
proof -
  have core: "core_ok (sy_session st)"
    using assms(1) by (simp add: sys_ok_def)
  have wg: "s_closedErr (wg_Done c p s) = s_closedErr s" for c p s
    by (simp add: wg_Done_def)
  from assms(3) show ?thesis
  proof cases
    case (call_flow op w s' es)
    then show ?thesis
      using flow_call_keeps assms(2) by (fastforce simp: keeps_def)
  next
    case (read_frame k c r rs rs' pick p s' es)
    then show ?thesis
      using frame_step_ok [OF core, of r pick rs' c] threadD(1) [OF assms(1) read_frame(2)] assms(2)
      by (simp add: goto_def wg keeps_def)
  next
    case (local k c p w p' s' es)
    then show ?thesis
      using local_step_ok [OF core threadD(1) [OF assms(1) local(3)] local(4), of w c] assms(2)
      by (simp add: goto_def wg keeps_def)
  next
    case (close_part k c p code why a w p' s' es)
    then show ?thesis
      using close_step_ok [OF core close_part(4,5), of w code why] assms(2)
      by (cases "p = AtConn") (auto simp: goto_def wg keeps_def)
  next
    case (finish k c e s' es)
    then show ?thesis
      using Close_finish_keeps(1) [OF finish(5)] assms(2) by (simp add: goto_def wg)
  qed (use assms(2) in \<open>simp_all add: goto_def spawn_def wg\<close>)
qed

lemma goes_reach:
  assumes "sys_ok st" and "s_closedErr (sy_session st) \<noteq> None" and "(goes V)\<^sup>*\<^sup>* st t"
  shows "sys_ok t" and "s_closedErr (sy_session t) \<noteq> None"
  using assms(3) assms(1,2)
  by (induction rule: rtranclp_induct) (auto simp: goes_ok goes_def dest: sys_step_closed sys_step_ok)

lemma no_infinite_run:
  assumes "sys_ok (run 0)" and "s_closedErr (sy_session (run 0)) \<noteq> None"
  shows "\<not> (\<forall>n. goes V (run n) (run (Suc n)))"
proof
  assume run: "\<forall>n. goes V (run n) (run (Suc n))"
  have "(goes V)\<^sup>*\<^sup>* (run 0) (run n)" for n
    by (induction n) (use run in \<open>auto intro: rtranclp.rtrancl_into_rtrancl\<close>)
  then have "((work (run (Suc n)), close_work (run (Suc n))), (work (run n), close_work (run n)))
      \<in> less_than <*lex*> less_than" for n
    using goes_less goes_reach [OF assms] run by blast
  then have "\<exists>f. \<forall>n. (f (Suc n), f n) \<in> less_than <*lex*> less_than"
    by (intro exI [of _ "\<lambda>n. (work (run n), close_work (run n))"]) simp
  moreover have "wf (less_than <*lex*> less_than)"
    by (intro wf_lex_prod wf_less_than)
  ultimately show False
    unfolding wf_iff_no_infinite_down_chain by blast
qed

end

section \<open>Properties\<close>

text \<open>C5: \<open>Close\<close> returns. Once a session is closed, by \<open>Close\<close> or by a malformed datagram, there is no
  infinite run of its goroutines and of the calls under way, whatever else the peer sends; and a run
  can stop only where every goroutine of the session and every call, \<open>Close\<close> included, has returned. A
  connection that was closed delivers nothing new.\<close>

theorem close_returns:
  assumes "quicvarint V" and "sys_reach V st" and "isClosed (sy_session st) \<noteq> None"
  shows "\<not> (\<exists>run. run 0 = st \<and> (\<forall>n. goes V (run n) (run (Suc n)))) \<and>
    (\<forall>t. (goes V)\<^sup>*\<^sup>* st t \<and> (\<nexists>t'. sys_step V Run t t') \<longrightarrow>
       (\<forall>g \<in> set (sy_threads t). returned (g_pc g)) \<and> s_wg (sy_session t) = 0 \<and>
       (\<nexists>t'. sys_step V Arrival t t'))"
proof -
  have ok: "sys_ok st" and closed: "s_closedErr (sy_session st) \<noteq> None"
    using quicvarint.sys_reach_ok [OF assms(1,2)] assms(3) by (simp_all add: isClosed_def)
  have "\<not> (\<exists>run. run 0 = st \<and> (\<forall>n. goes V (run n) (run (Suc n))))"
    using quicvarint.no_infinite_run [OF assms(1)] ok closed by metis
  moreover have "(\<forall>g \<in> set (sy_threads t). returned (g_pc g)) \<and> s_wg (sy_session t) = 0 \<and>
      (\<nexists>t'. sys_step V Arrival t t')"
    if t: "(goes V)\<^sup>*\<^sup>* st t" and stuck: "\<nexists>t'. sys_step V Run t t'" for t
  proof -
    note tok = quicvarint.goes_reach [OF assms(1) ok closed t]
    have ret: "\<forall>g \<in> set (sy_threads t). returned (g_pc g)"
      using quicvarint.progress [OF assms(1) tok] stuck mem_thread [of _ t] by blast
    then have "filter alive (sy_threads t) = []"
      using tok(1) by (force simp: filter_empty_conv alive_def sys_ok_def threads_ok_def role_ok_def
          elim: returned.elims)
    moreover have "sy_mutex t = None"
      using quicvarint.holder_runs [OF assms(1) tok(1)] stuck by (cases "sy_mutex t") auto
    then have "sy_connClosed t"
      using tok by (auto simp: sys_ok_def shutdown_ok_def)
    then have "\<nexists>t'. sys_step V Arrival t t'"
      by (auto elim: sys_step.cases fetch.cases)
    ultimately show ?thesis
      using ret tok(1) by (simp add: sys_ok_def wg_ok_def)
  qed
  ultimately show ?thesis by blast
qed

theorem close_returns_witness:
  "\<exists>st. sys_reach rfc9000 st \<and> isClosed (sy_session st) \<noteq> None \<and> length (sy_threads st) = 3 \<and>
     \<not> (\<exists>run. run 0 = st \<and> (\<forall>n. goes rfc9000 (run n) (run (Suc n))))"
proof -
  let ?close = "\<lparr>g_counted = False, g_pc = Closing AtLock ErrRoQNoError [] WaitForLoops\<rparr>"
  have "sys_reach rfc9000 (spawn ?close running)"
    by (rule sys_reach.step [OF running_reach(1) call]) simp
  then obtain st where "sys_reach rfc9000 st" "isClosed (sy_session st) \<noteq> None" "length (sy_threads st) = 3"
    by (rule close_run_without_flows [where k = 2 and c = False and a = WaitForLoops and e = None])
      (auto simp: thread_def spawn_def running_def loops_def start_def newSession_def newSyncMap_def
        isClosed_def wg_Done_def after_close_def)
  then show ?thesis
    using close_returns [OF rfc.quicvarint_axioms] by blast
qed

end
