(* ===== verification/Flow_Concurrency.thy ===== *)
theory Flow_Concurrency
  imports Receive_Deadline "HOL-Library.Multiset"
begin

text \<open>
  A receive flow used by many goroutines at once. The state is the flow and, for every call in
  progress, how far it got; a step is one critical section of one call. Readers, datagram and stream
  handlers, deadline timers and closers interleave freely. Shown for every reachable state: no call
  panics, no wake-up is lost, a reader of a closed flow gets an error, pooled buffers are not mixed
  up, and \<open>Close\<close> leaves no stream behind.
\<close>

section \<open>Calls in progress\<close>

text \<open>
  A datagram handler has written its packet to a pooled buffer and not pushed it yet. A stream
  handler is registered and reads, or has a frame in a pooled buffer, or has left its loop and not
  unregistered yet. Next to the address of a held buffer stands what the handler wrote to it.
\<close>

datatype handler =
  HDatagram nat "byte list"
| HRead int
| HFrame int nat "byte list"
| HExit int
| HGone

text \<open>A call of \<open>Close\<close> has cancelled the context, has closed the buffer too, or has returned.\<close>

datatype closer = CCancelled | CBufferClosed | CReturned

record flow_sys =
  fs_flow :: ReceiveFlow
  fs_readers :: "(nat \<times> reader) list"
  fs_handlers :: "handler list"
  fs_closers :: "closer list"
  fs_timers :: "nat list"
  fs_effects :: "effect list"

fun held :: "handler \<Rightarrow> (nat \<times> byte list) list" where
  "held (HDatagram b p) = [(b, p)]"
| "held (HFrame i b p) = [(b, p)]"
| "held _ = []"

fun reads :: "handler \<Rightarrow> int list" where
  "reads (HRead i) = [i]"
| "reads (HFrame i b p) = [i]"
| "reads (HExit i) = [i]"
| "reads _ = []"

definition all_held :: "handler list \<Rightarrow> (nat \<times> byte list) list" where
  "all_held hs = concat (map held hs)"

definition all_reads :: "handler list \<Rightarrow> int list" where
  "all_reads hs = concat (map reads hs)"

text \<open>A fresh flow, nobody using it.\<close>

definition fs_init :: "ReceiveFlow \<Rightarrow> flow_sys" where
  "fs_init f = \<lparr>fs_flow = f, fs_readers = [], fs_handlers = [], fs_closers = [], fs_timers = [],
                fs_effects = []\<rparr>"

text \<open>
  One step. A step whose operation panics has the outcome \<open>Panic\<close>. A reader receives a packet and
  copies it in one step: the buffer is its own in between. Timers that were stopped may still run
  their callback. The bytes a stream handler reads and the buffers the pool returns are arbitrary;
  QUIC gives no two open streams the same ID.
\<close>

inductive fstep :: "flow_sys \<Rightarrow> flow_sys outcome \<Rightarrow> bool" where
  read_call: "fstep y (Done (y\<lparr>fs_readers := fs_readers y @ [(n, RStart)]\<rparr>))"
| read_begin: "fs_readers y = xs @ (n, RStart) # ys \<Longrightarrow>
    fstep y (Done (y\<lparr>fs_readers := xs @ (n, Read_begin (fs_flow y)) # ys\<rparr>))"
| read_packet: "fs_readers y = xs @ (n, RWait ch) # ys \<Longrightarrow>
    Read_packet n (fs_flow y) = Some (res, f) \<Longrightarrow>
    fstep y (Done (y\<lparr>fs_flow := f, fs_readers := xs @ (n, RDone res) # ys\<rparr>))"
| read_woken: "fs_readers y = xs @ (n, RWait ch) # ys \<Longrightarrow> Read_woken ch (fs_flow y) \<Longrightarrow>
    fstep y (Done (y\<lparr>fs_readers := xs @ (n, RStart) # ys\<rparr>))"
| set_deadline: "fstep y (bind_outcome (SetReadDeadline t (fs_flow y)) (\<lambda>f.
    Done (y\<lparr>fs_flow := f, fs_timers := (case rf_deadlineTimer f of None \<Rightarrow> [] | Some ch \<Rightarrow> [ch]) @ fs_timers y\<rparr>)))"
| timer: "ch \<in> set (fs_timers y) \<Longrightarrow>
    fstep y (bind_outcome (expireDeadline ch (fs_flow y)) (\<lambda>f. Done (y\<lparr>fs_flow := f\<rparr>)))"
| datagram: "pool_Get pick (fs_flow y) = (b, f) \<Longrightarrow>
    fstep y (Done (y\<lparr>fs_flow := buf_Write b p (buf_Reset b f),
                     fs_handlers := fs_handlers y @ [HDatagram b p]\<rparr>))"
| datagram_push: "fs_handlers y = xs @ HDatagram b p # ys \<Longrightarrow>
    fstep y (bind_outcome (push b (fs_flow y)) (\<lambda>f.
      Done (y\<lparr>fs_flow := f, fs_handlers := xs @ HGone # ys\<rparr>)))"
| stream: "rs_ID r \<notin> set (all_reads (fs_handlers y)) \<Longrightarrow>
    readStream_register (fs_flow y) r = (go, f, es) \<Longrightarrow>
    fstep y (Done (y\<lparr>fs_flow := f, fs_effects := fs_effects y @ es,
                     fs_handlers := fs_handlers y @ (if go then [HRead (rs_ID r)] else [])\<rparr>))"
| stream_frame: "fs_handlers y = xs @ HRead i # ys \<Longrightarrow> pool_Get pick (fs_flow y) = (b, f) \<Longrightarrow>
    fstep y (Done (y\<lparr>fs_flow := buf_Next b (length pre) (buf_Write b p (buf_Write b pre (buf_Reset b f))),
                     fs_handlers := xs @ HFrame i b p # ys\<rparr>))"
| stream_push: "fs_handlers y = xs @ HFrame i b p # ys \<Longrightarrow>
    fstep y (bind_outcome (push b (fs_flow y)) (\<lambda>f.
      Done (y\<lparr>fs_flow := f, fs_handlers := xs @ HRead i # ys\<rparr>)))"
| stream_fail: "fs_handlers y = xs @ HFrame i b p # ys \<Longrightarrow>
    fstep y (Done (y\<lparr>fs_handlers := xs @ HExit i # ys\<rparr>))"
| stream_end: "fs_handlers y = xs @ HRead i # ys \<Longrightarrow>
    fstep y (Done (y\<lparr>fs_handlers := xs @ HExit i # ys\<rparr>))"
| stream_exit: "fs_handlers y = xs @ HExit (rs_ID r) # ys \<Longrightarrow>
    fstep y (Done (y\<lparr>fs_flow := readStream_unregister (fs_flow y) r, fs_handlers := xs @ HGone # ys\<rparr>))"
| close_cancel: "fstep y (Done (y\<lparr>fs_flow := cancelCtx (fs_flow y), fs_closers := fs_closers y @ [CCancelled]\<rparr>))"
| close_buffer: "fs_closers y = xs @ CCancelled # ys \<Longrightarrow>
    fstep y (bind_outcome (closeBuffer (fs_flow y)) (\<lambda>f.
      Done (y\<lparr>fs_flow := f, fs_closers := xs @ CBufferClosed # ys\<rparr>)))"
| close_streams: "fs_closers y = xs @ CBufferClosed # ys \<Longrightarrow>
    fstep y (Done (y\<lparr>fs_closers := xs @ CReturned # ys,
                     fs_effects := fs_effects y @ rf_closeWithError ErrRoQNoError (fs_flow y)\<rparr>))"
| evict: "fstep y (Done (y\<lparr>fs_effects := fs_effects y @ rf_closeWithError ErrRoQUnknownFlowID (fs_flow y)\<rparr>))"

inductive freach :: "flow_sys \<Rightarrow> bool" where
  init: "newReceiveFlow i n q lg = Done f \<Longrightarrow> freach (fs_init f)"
| step: "freach y \<Longrightarrow> fstep y (Done y') \<Longrightarrow> freach y'"

section \<open>Invariant\<close>

text \<open>Held buffers hold what their holder wrote.\<close>

definition held_ok :: "flow_sys \<Rightarrow> bool" where
  "held_ok y \<longleftrightarrow>
     rf_ok (map fst (all_held (fs_handlers y))) (fs_flow y) \<and>
     (\<forall>(b, p) \<in> set (all_held (fs_handlers y)). rf_heap (fs_flow y) b = p)"

definition waiting_ok :: "flow_sys \<Rightarrow> bool" where
  "waiting_ok y \<longleftrightarrow> (\<forall>n ch. (n, RWait ch) \<in> set (fs_readers y) \<longrightarrow> ch < rf_freshCh (fs_flow y))"

definition streams_ok :: "flow_sys \<Rightarrow> bool" where
  "streams_ok y \<longleftrightarrow>
     distinct (all_reads (fs_handlers y)) \<and>
     set (all_reads (fs_handlers y)) = set (rf_streams (fs_flow y))"

definition closers_ok :: "flow_sys \<Rightarrow> bool" where
  "closers_ok y \<longleftrightarrow>
     (fs_closers y \<noteq> [] \<longrightarrow> rf_ctxDone (fs_flow y)) \<and>
     (CBufferClosed \<in> set (fs_closers y) \<or> CReturned \<in> set (fs_closers y) \<longrightarrow> rf_closed (fs_flow y)) \<and>
     (CReturned \<in> set (fs_closers y) \<longrightarrow>
        (\<forall>i \<in> set (rf_streams (fs_flow y)). CancelRead i ErrRoQNoError \<in> set (fs_effects y)))"

definition fs_ok :: "flow_sys \<Rightarrow> bool" where
  "fs_ok y \<longleftrightarrow> held_ok y \<and> waiting_ok y \<and> streams_ok y \<and> closers_ok y"

lemmas fs_ok_defs = fs_ok_def waiting_ok_def streams_ok_def closers_ok_def

lemma all_held_simps [simp]:
  "all_held [] = []" "all_held (h # hs) = held h @ all_held hs"
  "all_held (xs @ ys) = all_held xs @ all_held ys"
  by (simp_all add: all_held_def)

lemma all_reads_simps [simp]:
  "all_reads [] = []" "all_reads (h # hs) = reads h @ all_reads hs"
  "all_reads (xs @ ys) = all_reads xs @ all_reads ys"
  by (simp_all add: all_reads_def)

lemma rf_ok_perm:
  assumes "rf_ok H f" and "mset H = mset H'"
  shows "rf_ok H' f"
proof -
  have "set H' = set H" and "distinct (A @ H') = distinct (A @ H)" for A :: "nat list"
    using mset_eq_setD [OF assms(2)] mset_eq_imp_distinct_iff [of "A @ H'" "A @ H"] assms(2)
    by simp_all
  note this(1) this(2) [of "rf_pool f @ ch_queue (rf_buffer f)"]
  with assms(1) show ?thesis
    by (simp add: rf_ok_def buffers_ok_def)
qed

lemma fs_ok_init: "newReceiveFlow i n q lg = Done f \<Longrightarrow> fs_ok (fs_init f)"
  using rf_ok_new rf_new_fields(6)
  by (fastforce simp: fs_ok_defs held_ok_def fs_init_def)

section \<open>Every step keeps the invariant\<close>

text \<open>Steps on buffers: taking one and writing to it, and pushing one.\<close>

lemma fs_ok_buffers:
  assumes "fs_ok y" and "same_but_buffers (fs_flow y) f"
    and "held_ok (y\<lparr>fs_flow := f, fs_handlers := hs\<rparr>)"
    and "all_reads hs = all_reads (fs_handlers y)"
  shows "fs_ok (y\<lparr>fs_flow := f, fs_handlers := hs\<rparr>)"
  using assms by (simp add: fs_ok_defs same_but_buffers_def)

lemma pool_Get_heap: "pool_Get pick f = (b, f') \<Longrightarrow> c \<noteq> b \<Longrightarrow> rf_heap f' c = rf_heap f c"
  by (auto simp: pool_Get_def split: option.splits if_splits)

lemma take_buffer_ok:
  assumes "fs_ok y" and "pool_Get pick (fs_flow y) = (b, f)"
    and "mset (all_held hs) = add_mset (b, p) (mset (all_held (fs_handlers y)))"
    and "all_reads hs = all_reads (fs_handlers y)"
  shows "fs_ok (y\<lparr>fs_flow := f\<lparr>rf_heap := (rf_heap f)(b := p)\<rparr>, fs_handlers := hs\<rparr>)"
    and "rf_packets (f\<lparr>rf_heap := (rf_heap f)(b := p)\<rparr>) = rf_packets (fs_flow y)"
proof -
  let ?H = "map fst (all_held (fs_handlers y))" and ?f = "f\<lparr>rf_heap := (rf_heap f)(b := p)\<rparr>"
  have held: "rf_ok ?H (fs_flow y)"
    "\<And>c q. (c, q) \<in> set (all_held (fs_handlers y)) \<Longrightarrow> rf_heap (fs_flow y) c = q"
    using assms(1) by (auto simp: fs_ok_def held_ok_def)
  note get = pool_Get_ok [OF held(1) assms(2)]
  note wr = rf_heap_write_ok [OF get(1)]
  have ms: "mset (b # ?H) = mset (map fst (all_held hs))"
    using assms(3) by simp
  have set: "set (all_held hs) = insert (b, p) (set (all_held (fs_handlers y)))"
    using assms(3) by (metis set_mset_add_mset_insert set_mset_mset)
  have "b \<notin> set ?H"
    using get(1) by (auto simp: rf_ok_def buffers_ok_def)
  then have "rf_heap ?f c = q" if "(c, q) \<in> set (all_held (fs_handlers y))" for c q
    using that held(2) pool_Get_heap [OF assms(2), of c] by force
  then have "held_ok (y\<lparr>fs_flow := ?f, fs_handlers := hs\<rparr>)"
    using rf_ok_perm [OF wr(1) ms] by (auto simp: held_ok_def set)
  moreover have "same_but_buffers (fs_flow y) ?f"
    using get(4) by (simp add: same_but_buffers_def)
  ultimately show "fs_ok (y\<lparr>fs_flow := ?f, fs_handlers := hs\<rparr>)"
    using fs_ok_buffers [OF assms(1) _ _ assms(4)] by blast
  show "rf_packets ?f = rf_packets (fs_flow y)"
    using wr(2) get(2) by simp
qed

lemma push_heap: "push b f = Done f' \<Longrightarrow> rf_heap f' = rf_heap f"
  by (auto simp: push_def pool_Put_def bind_outcome_Done_iff split: if_splits)

lemma push_held_ok:
  assumes "fs_ok y" and "fs_handlers y = xs @ h # ys" and "held h = [(b, p)]" and "held h' = []"
    and "reads h' = reads h"
  obtains f where "push b (fs_flow y) = Done f"
    and "fs_ok (y\<lparr>fs_flow := f, fs_handlers := xs @ h' # ys\<rparr>)"
    and "rf_packets f =
      (if \<not> rf_closed (fs_flow y) \<and> length (rf_packets (fs_flow y)) < rf_cap (fs_flow y)
       then rf_packets (fs_flow y) @ [p] else rf_packets (fs_flow y))"
proof -
  let ?H = "map fst (all_held (xs @ h' # ys))"
  have "rf_ok (map fst (all_held (fs_handlers y))) (fs_flow y)"
    and p: "rf_heap (fs_flow y) b = p"
    and rest: "\<forall>(c, q) \<in> set (all_held (xs @ h' # ys)). rf_heap (fs_flow y) c = q"
    using assms(1-4) by (auto simp: fs_ok_def held_ok_def)
  then have "rf_ok (b # ?H) (fs_flow y)"
    using assms(2-4) by (elim rf_ok_perm) simp
  from push_ok [OF this] obtain f where f: "push b (fs_flow y) = Done f" "rf_ok ?H f"
    "same_but_buffers (fs_flow y) f"
    "rf_packets f =
      (if \<not> rf_closed (fs_flow y) \<and> length (rf_packets (fs_flow y)) < rf_cap (fs_flow y)
       then rf_packets (fs_flow y) @ [p] else rf_packets (fs_flow y))"
    using p by blast
  have "held_ok (y\<lparr>fs_flow := f, fs_handlers := xs @ h' # ys\<rparr>)"
    using f(2) rest push_heap [OF f(1)] by (simp add: held_ok_def)
  then have "fs_ok (y\<lparr>fs_flow := f, fs_handlers := xs @ h' # ys\<rparr>)"
    using assms(2,5) by (intro fs_ok_buffers [OF assms(1) f(3)]) simp_all
  with f(1,4) show thesis
    by (intro that)
qed

text \<open>Steps of readers and on the deadline.\<close>

lemma fs_ok_readers:
  assumes "fs_ok y" and "\<And>n ch. (n, RWait ch) \<in> set rs \<Longrightarrow> ch < rf_freshCh (fs_flow y)"
  shows "fs_ok (y\<lparr>fs_readers := rs\<rparr>)"
  using assms by (simp add: fs_ok_defs held_ok_def)

lemma fs_ok_waiting: "fs_ok y \<Longrightarrow> (n, RWait ch) \<in> set (fs_readers y) \<Longrightarrow> ch < rf_freshCh (fs_flow y)"
  by (simp add: fs_ok_def waiting_ok_def)

lemma Read_begin_fresh: "deadline_ok f \<Longrightarrow> Read_begin f = RWait ch \<Longrightarrow> ch < rf_freshCh f"
  by (auto simp: Read_begin_def deadline_ok_def split: if_splits)

lemma fs_ok_deadline: "fs_ok y \<Longrightarrow> deadline_ok (fs_flow y)"
  by (simp add: fs_ok_def held_ok_def rf_ok_def)

lemma fs_ok_read_packet:
  assumes "fs_ok y" and "Read_packet n (fs_flow y) = Some (res, f)"
  shows "fs_ok (y\<lparr>fs_flow := f\<rparr>)"
proof -
  have ok: "rf_ok (map fst (all_held (fs_handlers y))) (fs_flow y)"
    using assms(1) by (simp add: fs_ok_def held_ok_def)
  note r = Read_packet_ok [OF ok assms(2)]
  have "held_ok (y\<lparr>fs_flow := f, fs_handlers := fs_handlers y\<rparr>)"
    using assms(1) r(1,3) by (simp add: fs_ok_def held_ok_def)
  then show ?thesis
    using fs_ok_buffers [OF assms(1) r(2), of "fs_handlers y"] by simp
qed

lemma fs_ok_deadline_step:
  assumes "fs_ok y" and "rf_ok (map fst (all_held (fs_handlers y))) f"
    and "same_but_deadline (fs_flow y) f" and "rf_freshCh (fs_flow y) \<le> rf_freshCh f"
  shows "fs_ok (y\<lparr>fs_flow := f, fs_timers := ts\<rparr>)"
proof -
  have "waiting_ok (y\<lparr>fs_flow := f, fs_timers := ts\<rparr>)"
    using assms(1,4) unfolding fs_ok_def waiting_ok_def by (simp, meson order_less_le_trans)
  then show ?thesis
    using assms(1-3) by (simp add: fs_ok_def held_ok_def streams_ok_def closers_ok_def same_but_deadline_def)
qed

lemma fs_ok_set_deadline:
  assumes "fs_ok y"
  obtains f where "SetReadDeadline t (fs_flow y) = Done f"
    and "\<And>ts. fs_ok (y\<lparr>fs_flow := f, fs_timers := ts\<rparr>)"
proof -
  have "rf_ok (map fst (all_held (fs_handlers y))) (fs_flow y)"
    using assms by (simp add: fs_ok_def held_ok_def)
  from SetReadDeadline_ok [OF this] show thesis
    using that fs_ok_deadline_step [OF assms] by (metis le_SucI order_refl)
qed

lemma fs_ok_timer:
  assumes "fs_ok y"
  obtains f where "expireDeadline ch (fs_flow y) = Done f" and "fs_ok (y\<lparr>fs_flow := f\<rparr>)"
proof -
  have "rf_ok (map fst (all_held (fs_handlers y))) (fs_flow y)"
    using assms by (simp add: fs_ok_def held_ok_def)
  from expireDeadline_ok [OF this, of ch] obtain f where f: "expireDeadline ch (fs_flow y) = Done f"
    "rf_ok (map fst (all_held (fs_handlers y))) f" "same_but_deadline (fs_flow y) f"
    "rf_freshCh f = rf_freshCh (fs_flow y)"
    by blast
  then have "fs_ok (y\<lparr>fs_flow := f, fs_timers := fs_timers y\<rparr>)"
    by (intro fs_ok_deadline_step [OF assms]) simp_all
  with f(1) show thesis
    by (intro that) simp_all
qed

text \<open>Steps of stream handlers outside their buffers.\<close>

lemma fs_ok_register:
  assumes "fs_ok y" and "rs_ID r \<notin> set (all_reads (fs_handlers y))"
    and "readStream_register (fs_flow y) r = (go, f, es)"
  shows "fs_ok (y\<lparr>fs_flow := f, fs_effects := fs_effects y @ es,
    fs_handlers := fs_handlers y @ (if go then [HRead (rs_ID r)] else [])\<rparr>)"
proof (cases "rf_ctxDone (fs_flow y)")
  case True
  then have "\<not> go" "f = fs_flow y"
    using assms(3) by (auto simp: readStream_register_def)
  then show ?thesis
    using assms(1) by (simp add: fs_ok_defs held_ok_def)
next
  case False
  then have "go" and f: "f = (fs_flow y)\<lparr>rf_streams := List.insert (rs_ID r) (rf_streams (fs_flow y))\<rparr>"
    and "es = []"
    using assms(3) by (auto simp: readStream_register_def)
  moreover have "rf_ok H f" if "rf_ok H (fs_flow y)" for H
    using that by (simp add: f rf_ok_defs)
  ultimately show ?thesis
    using assms(1,2) False by (simp add: fs_ok_defs held_ok_def)
qed

lemma fs_ok_leave:
  assumes "fs_ok y" and "fs_handlers y = xs @ h # ys" and "reads h = [i]"
  shows "fs_ok (y\<lparr>fs_handlers := xs @ HExit i # ys\<rparr>)"
proof -
  let ?hs = "xs @ HExit i # ys"
  have ok: "rf_ok (map fst (all_held (fs_handlers y))) (fs_flow y)"
    and c: "\<forall>(b, p) \<in> set (all_held ?hs). rf_heap (fs_flow y) b = p"
    using assms(1,2) by (simp_all add: fs_ok_def held_ok_def ball_Un)
  have "rf_ok (map fst (all_held ?hs)) (fs_flow y)"
    using ok by (auto simp: assms(2) rf_ok_def buffers_ok_def)
  then have "held_ok (y\<lparr>fs_flow := fs_flow y, fs_handlers := ?hs\<rparr>)"
    using c by (simp add: held_ok_def)
  then show ?thesis
    using fs_ok_buffers [OF assms(1) same_but_buffers_refl, of ?hs] assms(2,3) by simp
qed

lemma fs_ok_unregister:
  assumes "fs_ok y" and "fs_handlers y = xs @ HExit (rs_ID r) # ys"
  shows "fs_ok (y\<lparr>fs_flow := readStream_unregister (fs_flow y) r, fs_handlers := xs @ HGone # ys\<rparr>)"
proof -
  let ?f = "readStream_unregister (fs_flow y) r"
  have "rf_ok H ?f" if "rf_ok H (fs_flow y)" for H
    using that by (simp add: readStream_unregister_def rf_ok_defs distinct_removeAll)
  moreover have "distinct (all_reads (fs_handlers y))"
    "set (all_reads (fs_handlers y)) = set (rf_streams (fs_flow y))"
    using assms(1) by (simp_all add: fs_ok_def streams_ok_def)
  then have "set (all_reads (xs @ HGone # ys)) = set (rf_streams ?f)"
    and "distinct (all_reads (xs @ HGone # ys))"
    by (auto simp: assms(2) readStream_unregister_def)
  ultimately show ?thesis
    using assms by (simp add: fs_ok_defs held_ok_def) (simp add: readStream_unregister_def)
qed

text \<open>Steps of closers.\<close>

lemma fs_ok_cancel:
  assumes "fs_ok y"
  shows "fs_ok (y\<lparr>fs_flow := cancelCtx (fs_flow y), fs_closers := fs_closers y @ [CCancelled]\<rparr>)"
proof -
  have "rf_ok H (cancelCtx (fs_flow y))" if "rf_ok H (fs_flow y)" for H
    using that by (simp add: cancelCtx_def rf_ok_defs)
  with assms show ?thesis
    by (simp add: fs_ok_defs held_ok_def) (simp add: cancelCtx_def)
qed

lemma fs_ok_close_buffer:
  assumes "fs_ok y" and "fs_closers y = xs @ CCancelled # ys"
  obtains f where "closeBuffer (fs_flow y) = Done f"
    and "fs_ok (y\<lparr>fs_flow := f, fs_closers := xs @ CBufferClosed # ys\<rparr>)"
proof -
  let ?f = "closed_flow (fs_flow y)"
  have ctx: "rf_ctxDone (fs_flow y)"
    and ok: "rf_ok (map fst (all_held (fs_handlers y))) (fs_flow y)"
    using assms by (auto simp: fs_ok_defs held_ok_def)
  then have "(fs_flow y)\<lparr>rf_ctxDone := True\<rparr> = fs_flow y"
    by simp
  then have "closeBuffer (fs_flow y) = Done ?f"
    using ok ctx
    by (auto simp: closeBuffer_def closed_flow_def chan_close_def rf_ok_def buffers_ok_def)
  moreover have "rf_heap ?f = rf_heap (fs_flow y)" "rf_freshCh ?f = rf_freshCh (fs_flow y)"
    by (simp_all add: closed_flow_def)
  then have "fs_ok (y\<lparr>fs_flow := ?f, fs_closers := xs @ CBufferClosed # ys\<rparr>)"
    using assms closed_flow_ok [OF ok] by (auto simp: fs_ok_defs held_ok_def)
  ultimately show thesis
    by (rule that)
qed

lemma fs_ok_close_streams:
  assumes "fs_ok y" and "fs_closers y = xs @ CBufferClosed # ys"
  shows "fs_ok (y\<lparr>fs_closers := xs @ CReturned # ys,
    fs_effects := fs_effects y @ rf_closeWithError ErrRoQNoError (fs_flow y)\<rparr>)"
  using assms by (auto simp: fs_ok_defs held_ok_def rf_closeWithError_def)

lemma fs_ok_evict:
  "fs_ok y \<Longrightarrow> fs_ok (y\<lparr>fs_effects := fs_effects y @ rf_closeWithError c (fs_flow y)\<rparr>)"
  by (auto simp: fs_ok_defs held_ok_def)

lemma buf_write_eq:
  "buf_Write b p (buf_Reset b f) = f\<lparr>rf_heap := (rf_heap f)(b := p)\<rparr>"
  "buf_Next b (length pre) (buf_Write b p (buf_Write b pre (buf_Reset b f)))
     = f\<lparr>rf_heap := (rf_heap f)(b := p)\<rparr>"
  by (simp_all add: buf_defs)

lemma fs_ok_readers_at:
  assumes "fs_ok y" and "fs_readers y = xs @ (n, r) # ys"
    and "\<And>ch. r' = RWait ch \<Longrightarrow> ch < rf_freshCh (fs_flow y)"
  shows "fs_ok (y\<lparr>fs_readers := xs @ (n, r') # ys\<rparr>)"
proof (rule fs_ok_readers [OF assms(1)])
  fix m ch
  assume "(m, RWait ch) \<in> set (xs @ (n, r') # ys)"
  then consider "(m, RWait ch) \<in> set (fs_readers y)" | "r' = RWait ch"
    by (auto simp: assms(2))
  then show "ch < rf_freshCh (fs_flow y)"
    using fs_ok_waiting [OF assms(1)] assms(3) by cases blast+
qed

lemma fstep_ok:
  assumes "fstep y out" and "fs_ok y"
  shows "\<exists>y'. out = Done y' \<and> fs_ok y'"
  using assms
proof cases
  case (read_call n)
  then show ?thesis
    using assms(2) fs_ok_waiting [OF assms(2)] by (auto intro!: fs_ok_readers)
next
  case (read_begin xs n ys)
  then show ?thesis
    using fs_ok_readers_at [OF assms(2) read_begin(2)]
      Read_begin_fresh [OF fs_ok_deadline [OF assms(2)]] by simp
next
  case (read_packet xs n ch ys res f)
  then show ?thesis
    using fs_ok_readers_at [OF fs_ok_read_packet [OF assms(2) read_packet(3)], of xs n "RWait ch" ys
        "RDone res"]
    by simp
next
  case (read_woken xs n ch ys)
  then show ?thesis
    using fs_ok_readers_at [OF assms(2) read_woken(2), of RStart] by simp
next
  case (set_deadline t)
  obtain f where "SetReadDeadline t (fs_flow y) = Done f" "\<And>ts. fs_ok (y\<lparr>fs_flow := f, fs_timers := ts\<rparr>)"
    by (rule fs_ok_set_deadline [OF assms(2), of t]) (rule that)
  with set_deadline show ?thesis by simp
next
  case (timer ch)
  obtain f where "expireDeadline ch (fs_flow y) = Done f" "fs_ok (y\<lparr>fs_flow := f\<rparr>)"
    by (rule fs_ok_timer [OF assms(2), of ch]) (rule that)
  with timer show ?thesis by simp
next
  case (datagram pick b f p)
  then show ?thesis
    using take_buffer_ok(1) [OF assms(2) datagram(2), of "fs_handlers y @ [HDatagram b p]" p]
    by (simp add: buf_write_eq)
next
  case (datagram_push xs b p ys)
  show ?thesis
    by (rule push_held_ok [OF assms(2) datagram_push(2), of b p HGone])
      (simp_all add: datagram_push(1))
next
  case (stream r go f es)
  then show ?thesis
    using fs_ok_register [OF assms(2)] by blast
next
  case (stream_frame xs i ys pick b f p pre)
  then show ?thesis
    using take_buffer_ok(1) [OF assms(2) stream_frame(3), of "xs @ HFrame i b p # ys" p]
    by (simp add: buf_write_eq(2))
next
  case (stream_push xs i b p ys)
  show ?thesis
    by (rule push_held_ok [OF assms(2) stream_push(2), of b p "HRead i"])
      (simp_all add: stream_push(1))
next
  case (stream_fail xs i b p ys)
  then show ?thesis
    using fs_ok_leave [OF assms(2) stream_fail(2)] by simp
next
  case (stream_end xs i ys)
  then show ?thesis
    using fs_ok_leave [OF assms(2) stream_end(2)] by simp
next
  case (stream_exit xs r ys)
  then show ?thesis
    using fs_ok_unregister [OF assms(2)] by blast
next
  case close_cancel
  then show ?thesis
    using fs_ok_cancel [OF assms(2)] by blast
next
  case (close_buffer xs ys)
  obtain f where "closeBuffer (fs_flow y) = Done f"
    "fs_ok (y\<lparr>fs_flow := f, fs_closers := xs @ CBufferClosed # ys\<rparr>)"
    using assms(2) close_buffer(2) by (rule fs_ok_close_buffer)
  with close_buffer(1) show ?thesis by simp
next
  case (close_streams xs ys)
  then show ?thesis
    using fs_ok_close_streams [OF assms(2)] by blast
next
  case evict
  then show ?thesis
    using fs_ok_evict [OF assms(2)] by blast
qed

lemma freach_ok: "freach y \<Longrightarrow> fs_ok y"
  by (induction rule: freach.induct) (auto simp: fs_ok_init dest: fstep_ok)

section \<open>The queue under concurrency\<close>

text \<open>
  Only pushing appends to the queue, and appends what the pushing handler wrote to its buffer; only
  reading takes from it. No step changes a queued packet.
\<close>

lemma fstep_packets:
  assumes "fs_ok y" and "fstep y (Done y')"
  shows "rf_packets (fs_flow y') = rf_packets (fs_flow y) \<or>
    rf_packets (fs_flow y') = tl (rf_packets (fs_flow y)) \<or>
    (\<exists>b p. (b, p) \<in> set (all_held (fs_handlers y)) \<and>
       rf_packets (fs_flow y') = rf_packets (fs_flow y) @ [p])"
proof -
  have ok: "rf_ok (map fst (all_held (fs_handlers y))) (fs_flow y)"
    using assms(1) by (simp add: fs_ok_def held_ok_def)
  have pushed: ?thesis if "fs_handlers y = xs @ h # ys" "held h = [(b, p)]" "held h' = []"
    "reads h' = reads h"
    "Done y' = bind_outcome (push b (fs_flow y)) (\<lambda>f. Done (y\<lparr>fs_flow := f, fs_handlers := hs\<rparr>))"
    for xs h ys b p h' hs
    by (rule push_held_ok [OF assms(1) that(1-4)]) (use that in auto)
  show ?thesis
    using assms(2)
  proof cases
    case (read_packet xs n ch ys res f)
    then show ?thesis
      using Read_packet_ok(4) [OF ok] by simp
  next
    case (set_deadline t)
    then show ?thesis
      using SetReadDeadline_ok [OF ok, of t]
      by (auto simp: bind_outcome_Done_iff dest: same_but_deadline_fields(5))
  next
    case (timer ch)
    then show ?thesis
      using expireDeadline_ok [OF ok, of ch]
      by (auto simp: bind_outcome_Done_iff dest: same_but_deadline_fields(5))
  next
    case (datagram pick b f p)
    then show ?thesis
      using take_buffer_ok(2) [OF assms(1) datagram(2), of "fs_handlers y @ [HDatagram b p]" p]
      by (simp add: buf_write_eq)
  next
    case (datagram_push xs b p ys)
    show ?thesis
      using datagram_push(1) by (intro pushed [OF datagram_push(2), of b p HGone]) simp_all
  next
    case (stream r go f es)
    then show ?thesis
      by (auto simp: readStream_register_def rf_packets_def split: if_splits)
  next
    case (stream_frame xs i ys pick b f p pre)
    then show ?thesis
      using take_buffer_ok(2) [OF assms(1) stream_frame(3), of "xs @ HFrame i b p # ys" p]
      by (simp add: buf_write_eq(2))
  next
    case (stream_push xs i b p ys)
    show ?thesis
      using stream_push(1) by (intro pushed [OF stream_push(2), of b p "HRead i"]) simp_all
  next
    case (close_buffer xs ys)
    then show ?thesis
      by (auto simp: closeBuffer_def chan_close_def rf_packets_def split: if_splits)
  qed (auto simp: readStream_unregister_def cancelCtx_def rf_packets_def)
qed

section \<open>Properties\<close>

text \<open>A new flow with nobody using it, for concrete runs.\<close>

lemma freach_new: "\<exists>f. newReceiveFlow 7 2 None None = Done f \<and> freach (fs_init f)"
  by (metis freach.init newReceiveFlow_def not_less order_less_imp_le zero_less_numeral)

text \<open>C4: whatever calls run on a flow at the same time and however they interleave, no step
  panics: no channel is closed twice and nothing is sent on a closed channel.\<close>

theorem flow_no_panic:
  assumes "freach y" and "fstep y out"
  shows "\<exists>y'. out = Done y' \<and> freach y'"
  using fstep_ok [OF assms(2) freach_ok [OF assms(1)]] freach.step [OF assms(1)] assms(2) by blast

theorem flow_no_panic_witness:
  "\<exists>f y'. newReceiveFlow 7 2 None None = Done f \<and>
     bind_outcome (SetReadDeadline (Some 5) (fs_flow (fs_init f))) (\<lambda>g. Done ((fs_init f)\<lparr>fs_flow := g,
       fs_timers := (case rf_deadlineTimer g of None \<Rightarrow> [] | Some ch \<Rightarrow> [ch]) @ fs_timers (fs_init f)\<rparr>)) = Done y' \<and>
     freach y'"
proof -
  obtain f where f: "newReceiveFlow 7 2 None None = Done f" "freach (fs_init f)"
    using freach_new by blast
  from flow_no_panic [OF f(2) fstep.set_deadline [of "fs_init f" "Some 5"]] f(1) show ?thesis
    by blast
qed

text \<open>C13: no wake-up is lost: a reader that waits waits on the channel of the current deadline, or
  its channel is closed already, so that it looks again; and once the deadline has expired every
  waiting reader is woken.\<close>

theorem no_lost_wakeup:
  assumes "freach y" and "(n, RWait ch) \<in> set (fs_readers y)"
  shows "(ch = rf_deadlineCh (fs_flow y) \<and> \<not> rf_deadlineExpired (fs_flow y)) \<noteq> Read_woken ch (fs_flow y)"
  using closed_iff_stale [OF fs_ok_deadline fs_ok_waiting] freach_ok [OF assms(1)] assms(2) by blast

theorem no_lost_wakeup_witness:
  "\<exists>f. newReceiveFlow 7 2 None None = Done f \<and>
     (0, RWait 0) \<in> set (fs_readers ((fs_init f)\<lparr>fs_readers := [(0, RWait 0)]\<rparr>)) \<and>
     \<not> Read_woken 0 (fs_flow ((fs_init f)\<lparr>fs_readers := [(0, RWait 0)]\<rparr>))"
proof -
  obtain f where f: "newReceiveFlow 7 2 None None = Done f" "freach (fs_init f)"
    using freach_new by blast
  have new: "rf_deadlineCh f = 0" "\<not> rf_deadlineExpired f"
    using f(1) by (auto simp: newReceiveFlow_def)
  have 1: "freach ((fs_init f)\<lparr>fs_readers := [(0, RStart)]\<rparr>)"
    using freach.step [OF f(2) fstep.read_call [of _ 0]] by (simp add: fs_init_def)
  have "freach ((fs_init f)\<lparr>fs_readers := [(0, RWait 0)]\<rparr>)"
    using freach.step [OF 1 fstep.read_begin [of _ "[]" 0 "[]"]] new by (simp add: fs_init_def Read_begin_def)
  from no_lost_wakeup [OF this, of 0 0] f(1) new show ?thesis
    by (simp add: fs_init_def)
qed

text \<open>C20: a reader of a closed flow that has drained the queue is ready and gets the non-nil error
  of the cancelled context, at every interleaving of \<open>Close\<close> with reads: the buffer is never closed
  before the context.\<close>

theorem closed_read_reports_error:
  assumes "freach y" and "rf_closed (fs_flow y)" and "rf_packets (fs_flow y) = []"
  shows "Read_packet n (fs_flow y) = Some ((0, Some context_Canceled, []), fs_flow y)"
  using freach_ok [OF assms(1)] assms(2,3)
  by (auto simp: fs_ok_def held_ok_def rf_ok_def buffers_ok_def close_ok_def Read_packet_def
      chan_recv_def rf_packets_def ctx_Err_def)

text \<open>The flow of a call of \<open>Close\<close> that ran to its end beside nothing else.\<close>

lemma freach_closed:
  assumes "newReceiveFlow i n q lg = Done f"
  shows "freach ((fs_init f)\<lparr>fs_flow := closed_flow f, fs_closers := [CReturned]\<rparr>)"
proof -
  note new = rf_new_fields [OF assms]
  let ?y1 = "(fs_init f)\<lparr>fs_flow := cancelCtx f, fs_closers := [CCancelled]\<rparr>"
  let ?y2 = "(fs_init f)\<lparr>fs_flow := closed_flow f, fs_closers := [CBufferClosed]\<rparr>"
  have 1: "freach ?y1"
    using freach.step [OF freach.init [OF assms] fstep.close_cancel] by (simp add: fs_init_def)
  have "closeBuffer (cancelCtx f) = Done (closed_flow f)"
    using rf_ok_new [OF assms] new(4)
    by (auto simp: closeBuffer_def cancelCtx_def closed_flow_def chan_close_def rf_ok_def buffers_ok_def)
  then have 2: "freach ?y2"
    using freach.step [OF 1, of ?y2] fstep.close_buffer [of ?y1 "[]" "[]"] by (simp add: fs_init_def)
  show ?thesis
    using freach.step [OF 2 fstep.close_streams [of _ "[]" "[]"]] new(6)
    by (simp add: fs_init_def rf_closeWithError_def)
qed

theorem closed_read_reports_error_witness:
  "\<exists>f. newReceiveFlow 7 2 None None = Done f \<and>
     Read_packet 1500 (closed_flow f) = Some ((0, Some context_Canceled, []), closed_flow f)"
proof -
  obtain f where f: "newReceiveFlow 7 2 None None = Done f"
    using freach_new by blast
  from closed_read_reports_error [OF freach_closed [OF f], of 1500] f rf_new_fields [OF f] show ?thesis
    by simp
qed

text \<open>C12: once a call of \<open>Close\<close> has returned, every stream handler still reading had its stream
  cancelled, and a stream that arrives later is cancelled instead of being read: no handler blocks
  on a stream of a closed flow for ever.\<close>

theorem close_leaves_no_stream:
  assumes "freach y" and "CReturned \<in> set (fs_closers y)"
  shows "(\<forall>i \<in> set (all_reads (fs_handlers y)). CancelRead i ErrRoQNoError \<in> set (fs_effects y)) \<and>
    readStream_register (fs_flow y) r = (False, fs_flow y, [CancelRead (rs_ID r) ErrRoQNoError])"
  using freach_ok [OF assms(1)] assms(2)
  by (auto simp: fs_ok_def streams_ok_def closers_ok_def readStream_register_def)

theorem close_leaves_no_stream_witness:
  "\<exists>f. newReceiveFlow 7 2 None None = Done f \<and>
     readStream_register (closed_flow f) \<lparr>rs_ID = 3, rs_data = [], rs_end = io_EOF\<rparr>
       = (False, closed_flow f, [CancelRead 3 ErrRoQNoError])"
proof -
  obtain f where f: "newReceiveFlow 7 2 None None = Done f"
    using freach_new by blast
  from close_leaves_no_stream [OF freach_closed [OF f], of "\<lparr>rs_ID = 3, rs_data = [], rs_end = io_EOF\<rparr>"] f
  show ?thesis
    by simp
qed

text \<open>C14: the pooled buffers are never mixed up: at every step the queue stays as it is, loses its
  oldest packet to a reader, or gains at its end exactly the bytes a handler wrote to the buffer it
  holds; no packet that is queued or being handled is overwritten.\<close>

theorem queue_integrity:
  assumes "freach y" and "fstep y (Done y')"
  shows "(rf_packets (fs_flow y') = rf_packets (fs_flow y) \<or>
      rf_packets (fs_flow y') = tl (rf_packets (fs_flow y)) \<or>
      (\<exists>b p. (b, p) \<in> set (all_held (fs_handlers y)) \<and>
         rf_packets (fs_flow y') = rf_packets (fs_flow y) @ [p])) \<and>
    (\<forall>(b, p) \<in> set (all_held (fs_handlers y')). rf_heap (fs_flow y') b = p)"
proof -
  have "fs_ok y'"
    using fstep_ok [OF assms(2) freach_ok [OF assms(1)]] by simp
  then show ?thesis
    using fstep_packets [OF freach_ok [OF assms(1)] assms(2)] by (simp add: fs_ok_def held_ok_def)
qed

theorem queue_integrity_witness:
  "\<exists>f. newReceiveFlow 7 2 None None = Done f \<and>
     rf_packets (fs_flow ((fs_init f)\<lparr>fs_readers := [(0, RStart)]\<rparr>)) = []"
proof -
  obtain f where f: "newReceiveFlow 7 2 None None = Done f" "freach (fs_init f)"
    using freach_new by blast
  have "fstep (fs_init f) (Done ((fs_init f)\<lparr>fs_readers := [(0, RStart)]\<rparr>))"
    using fstep.read_call [of "fs_init f" 0] by (simp add: fs_init_def)
  from queue_integrity [OF f(2) this] f(1) rf_new_fields [OF f(1)] show ?thesis
    by (auto simp: fs_init_def)
qed

text \<open>Dropping a flow from the buffer of unknown flows cancels the streams registered at that
  moment but not the context: a stream whose handler looked the flow up before and registers after
  is read on and never cancelled.\<close>

lemma evicted_flow_reads_on:
  fixes r :: ReceiveStream
  assumes "freach y" and "\<not> rf_ctxDone (fs_flow y)" and "rs_ID r \<notin> set (all_reads (fs_handlers y))"
  shows "\<exists>y'. freach y' \<and> HRead (rs_ID r) \<in> set (fs_handlers y') \<and>
    fs_effects y' = fs_effects y @ rf_closeWithError ErrRoQUnknownFlowID (fs_flow y) \<and>
    CancelRead (rs_ID r) c \<notin> set (rf_closeWithError ErrRoQUnknownFlowID (fs_flow y))"
proof -
  let ?y = "y\<lparr>fs_effects := fs_effects y @ rf_closeWithError ErrRoQUnknownFlowID (fs_flow y)\<rparr>"
  let ?f = "(fs_flow y)\<lparr>rf_streams := List.insert (rs_ID r) (rf_streams (fs_flow y))\<rparr>"
  have "freach ?y"
    using assms(1) fstep.evict by (rule freach.step)
  moreover have "readStream_register (fs_flow ?y) r = (True, ?f, [])"
    using assms(2) by (simp add: readStream_register_def)
  ultimately have "freach (?y\<lparr>fs_flow := ?f, fs_effects := fs_effects ?y @ [],
      fs_handlers := fs_handlers ?y @ [HRead (rs_ID r)]\<rparr>)"
    using freach.step [OF _ fstep.stream, of ?y r True ?f "[]"] assms(3) by simp
  moreover have "rs_ID r \<notin> set (rf_streams (fs_flow y))"
    using freach_ok [OF assms(1)] assms(3) by (simp add: fs_ok_def streams_ok_def)
  then have "CancelRead (rs_ID r) c \<notin> set (rf_closeWithError ErrRoQUnknownFlowID (fs_flow y))"
    by (auto simp: rf_closeWithError_def)
  ultimately show ?thesis
    by fastforce
qed

end
