(* ===== verification/Chunked_Stream.thy ===== *)
theory Chunked_Stream
  imports Roq_Prelude
begin

text \<open>
  How bytes arrive. A QUIC stream hands its data out in chunks of any size, possibly with the final
  \<open>io.EOF\<close> on the last of them. The sources read streams through \<open>io.ReadFull\<close> and through
  \<open>bytes.Buffer.ReadFrom\<close> of an \<open>io.LimitReader\<close>. Their loops are written out here over a chunked
  stream, and shown to return, and to return what the model uses everywhere else: a function of the
  byte sequence and the error at its end.
\<close>

section \<open>A stream in chunks\<close>







section \<open>The loops of the standard library\<close>







section \<open>Chunks do not matter\<close>



section \<open>Properties\<close>



end
