(* ===== verification/Quic_Connection.thy ===== *)
theory Quic_Connection
  imports Session_Runs
begin

text \<open>
  \<open>quic_connection.go\<close>, the adapters from quic-go to the interfaces of the session, and the tracer of
  \<open>qlog/qlog.go\<close>. Package quic-go is a parameter: \<open>quic_go\<close> has one function per method the adapters
  call, over the package's own state \<open>'q\<close>, with connections \<open>'c\<close> and streams \<open>'s\<close> as handles. Errors and
  values are passed on; what is shown is how a session and a send flow behave on top of the adapters.
\<close>

section \<open>The package\<close>

record ('q, 'c, 's) quic_go =
  Stream_StreamID :: "'s \<Rightarrow> int"
  Stream_CancelRead :: "'s \<Rightarrow> u64 \<Rightarrow> 'q \<Rightarrow> 'q"
  Stream_Read :: "'s \<Rightarrow> nat \<Rightarrow> 'q \<Rightarrow> (byte list \<times> goerror option) \<times> 'q"
  Stream_Write :: "'s \<Rightarrow> byte list \<Rightarrow> 'q \<Rightarrow> write_result \<times> 'q"
  Stream_Close :: "'s \<Rightarrow> 'q \<Rightarrow> goerror option \<times> 'q"
  Stream_CancelWrite :: "'s \<Rightarrow> u64 \<Rightarrow> 'q \<Rightarrow> 'q"
  Conn_SendDatagram :: "'c \<Rightarrow> byte list \<Rightarrow> 'q \<Rightarrow> goerror option \<times> 'q"
  Conn_ReceiveDatagram :: "'c \<Rightarrow> bool \<Rightarrow> 'q \<Rightarrow> (goerror + byte list) \<times> 'q"
  Conn_OpenUniStreamSync :: "'c \<Rightarrow> bool \<Rightarrow> 'q \<Rightarrow> (goerror + 's) \<times> 'q"
  Conn_AcceptUniStream :: "'c \<Rightarrow> bool \<Rightarrow> 'q \<Rightarrow> (goerror + 's) \<times> 'q"
  Conn_QlogTrace :: "'c \<Rightarrow> 'q \<Rightarrow> trace option"
  Conn_CloseWithError :: "'c \<Rightarrow> u64 \<Rightarrow> string \<Rightarrow> 'q \<Rightarrow> goerror option \<times> 'q"

section \<open>Streams\<close>

text \<open>The conversions between \<open>int64\<close> and \<open>quic.StreamID\<close>, and between \<open>uint64\<close> and the error codes of
  quic-go, are between types of the same values.\<close>

record 's QUICGoReceiveStream =
  qgr_stream :: 's

definition NewQUICGoReceiveStream :: "'s \<Rightarrow> 's QUICGoReceiveStream" where
  "NewQUICGoReceiveStream stream = \<lparr>qgr_stream = stream\<rparr>"

definition QUICGoReceiveStream_ID :: "('q, 'c, 's) quic_go \<Rightarrow> 's QUICGoReceiveStream \<Rightarrow> int" where
  "QUICGoReceiveStream_ID L s = Stream_StreamID L (qgr_stream s)"

definition QUICGoReceiveStream_CancelRead ::
  "('q, 'c, 's) quic_go \<Rightarrow> 's QUICGoReceiveStream \<Rightarrow> u64 \<Rightarrow> 'q \<Rightarrow> 'q" where
  "QUICGoReceiveStream_CancelRead L s c = Stream_CancelRead L (qgr_stream s) c"

definition QUICGoReceiveStream_Read ::
  "('q, 'c, 's) quic_go \<Rightarrow> 's QUICGoReceiveStream \<Rightarrow> nat \<Rightarrow> 'q \<Rightarrow> (byte list \<times> goerror option) \<times> 'q" where
  "QUICGoReceiveStream_Read L s p = Stream_Read L (qgr_stream s) p"

record 's QUICGoSendStream =
  qgs_stream :: 's

definition NewQUICGoSendStream :: "'s \<Rightarrow> 's QUICGoSendStream" where
  "NewQUICGoSendStream stream = \<lparr>qgs_stream = stream\<rparr>"

definition QUICGoSendStream_ID :: "('q, 'c, 's) quic_go \<Rightarrow> 's QUICGoSendStream \<Rightarrow> int" where
  "QUICGoSendStream_ID L s = Stream_StreamID L (qgs_stream s)"

definition QUICGoSendStream_Write ::
  "('q, 'c, 's) quic_go \<Rightarrow> 's QUICGoSendStream \<Rightarrow> byte list \<Rightarrow> 'q \<Rightarrow> write_result \<times> 'q" where
  "QUICGoSendStream_Write L s b = Stream_Write L (qgs_stream s) b"

definition QUICGoSendStream_Close ::
  "('q, 'c, 's) quic_go \<Rightarrow> 's QUICGoSendStream \<Rightarrow> 'q \<Rightarrow> goerror option \<times> 'q" where
  "QUICGoSendStream_Close L s = Stream_Close L (qgs_stream s)"

definition QUICGoSendStream_CancelWrite ::
  "('q, 'c, 's) quic_go \<Rightarrow> 's QUICGoSendStream \<Rightarrow> u64 \<Rightarrow> 'q \<Rightarrow> 'q" where
  "QUICGoSendStream_CancelWrite L s c = Stream_CancelWrite L (qgs_stream s) c"

section \<open>Connections\<close>

record 'c QUICGoConnection =
  qgc_conn :: 'c

definition NewQUICGoConnection :: "'c \<Rightarrow> 'c QUICGoConnection" where
  "NewQUICGoConnection conn = \<lparr>qgc_conn = conn\<rparr>"

definition QUICGoConnection_SendDatagram ::
  "('q, 'c, 's) quic_go \<Rightarrow> 'c QUICGoConnection \<Rightarrow> byte list \<Rightarrow> 'q \<Rightarrow> goerror option \<times> 'q" where
  "QUICGoConnection_SendDatagram L c payload = Conn_SendDatagram L (qgc_conn c) payload"

definition QUICGoConnection_ReceiveDatagram ::
  "('q, 'c, 's) quic_go \<Rightarrow> 'c QUICGoConnection \<Rightarrow> bool \<Rightarrow> 'q \<Rightarrow> (goerror + byte list) \<times> 'q" where
  "QUICGoConnection_ReceiveDatagram L c ctxDone = Conn_ReceiveDatagram L (qgc_conn c) ctxDone"

definition QUICGoConnection_OpenUniStreamSync ::
  "('q, 'c, 's) quic_go \<Rightarrow> 'c QUICGoConnection \<Rightarrow> bool \<Rightarrow> 'q \<Rightarrow>
     (goerror + 's QUICGoSendStream) \<times> 'q" where
  "QUICGoConnection_OpenUniStreamSync L c ctxDone q =
     (case Conn_OpenUniStreamSync L (qgc_conn c) ctxDone q of
        (Inl err, q') \<Rightarrow> (Inl err, q')
      | (Inr s, q') \<Rightarrow> (Inr \<lparr>qgs_stream = s\<rparr>, q'))"

definition QUICGoConnection_AcceptUniStream ::
  "('q, 'c, 's) quic_go \<Rightarrow> 'c QUICGoConnection \<Rightarrow> bool \<Rightarrow> 'q \<Rightarrow>
     (goerror + 's QUICGoReceiveStream) \<times> 'q" where
  "QUICGoConnection_AcceptUniStream L c ctxDone q =
     (case Conn_AcceptUniStream L (qgc_conn c) ctxDone q of
        (Inl err, q') \<Rightarrow> (Inl err, q')
      | (Inr s, q') \<Rightarrow> (Inr \<lparr>qgr_stream = s\<rparr>, q'))"

definition QUICGoConnection_QlogTrace ::
  "('q, 'c, 's) quic_go \<Rightarrow> 'c QUICGoConnection \<Rightarrow> 'q \<Rightarrow> trace option" where
  "QUICGoConnection_QlogTrace L c q = Conn_QlogTrace L (qgc_conn c) q"

definition QUICGoConnection_CloseWithError ::
  "('q, 'c, 's) quic_go \<Rightarrow> 'c QUICGoConnection \<Rightarrow> u64 \<Rightarrow> string \<Rightarrow> 'q \<Rightarrow> goerror option \<times> 'q" where
  "QUICGoConnection_CloseWithError L c code reason = Conn_CloseWithError L (qgc_conn c) code reason"

section \<open>The tracer\<close>

text \<open>\<open>DefaultConnectionTracer\<close> over quic-go's tracer, which is given the schemas to accept; \<open>None\<close> is the
  nil it returns without \<open>QLOGDIR\<close>. \<open>quicSchema\<close> is the schema of the QUIC events.\<close>

definition DefaultConnectionTracer ::
  "(bool \<Rightarrow> 'id \<Rightarrow> string list \<Rightarrow> trace option) \<Rightarrow> string \<Rightarrow> bool \<Rightarrow> 'id \<Rightarrow> trace option" where
  "DefaultConnectionTracer tracerWithSchemas quicSchema isClient connID =
     tracerWithSchemas isClient connID [quicSchema, EventSchema]"

section \<open>Sessions and flows on top\<close>

text \<open>What a session sees of the connection: it implements \<open>QlogConnection\<close>.\<close>

definition quicgo_conn :: "('q, 'c, 's) quic_go \<Rightarrow> 'c QUICGoConnection \<Rightarrow> 'q \<Rightarrow> Connection" where
  "quicgo_conn L c q = \<lparr>conn_QlogTrace = Some (QUICGoConnection_QlogTrace L c q)\<rparr>"

text \<open>What \<open>NewSendStream\<close> sees of an opened stream: its ID, and that it has no priorities.\<close>

definition quicgo_opened ::
  "('q, 'c, 's) quic_go \<Rightarrow> goerror + 's QUICGoSendStream \<Rightarrow> goerror + (int \<times> bool)" where
  "quicgo_opened L res = map_sum id (\<lambda>s. (QUICGoSendStream_ID L s, False)) res"

definition quicgo_NewSendStream ::
  "('q, 'c, 's) quic_go \<Rightarrow> 'c QUICGoConnection \<Rightarrow> SendFlow \<Rightarrow> 32 word \<Rightarrow> bool \<Rightarrow> bool \<Rightarrow> nat \<Rightarrow> 'q \<Rightarrow>
     (goerror + RTPSendStream) \<times> SendFlow \<times> effect list" where
  "quicgo_NewSendStream L c f prio inc ctxDone ref q =
     NewSendStream f prio inc (quicgo_opened L (fst (QUICGoConnection_OpenUniStreamSync L c ctxDone q))) ref"

text \<open>
  \<open>RTPSendStream.WriteRTPBytes\<close> on a stream of the adapter: the writes \<open>flush\<close> and \<open>write_frame\<close> make go to
  quic-go, which answers with a count and an error.
\<close>

definition quicgo_write_frame ::
  "('q, 'c, 's) quic_go \<Rightarrow> varint_lib \<Rightarrow> 's QUICGoSendStream \<Rightarrow> RTPSendStream \<Rightarrow> byte list \<Rightarrow> 'q \<Rightarrow>
     ((int \<times> goerror option) \<times> RTPSendStream \<times> effect list \<times> 'q) outcome" where
  "quicgo_write_frame L V s st packet q =
     bind_outcome (vi_Append V (if rss_sentFlowID st then [] else rss_flowIDBytes st)
                     (word_of_nat (length packet))) (\<lambda>header.
       case QUICGoSendStream_Write L s (header @ packet) q of
         (rw, q') \<Rightarrow> bind_outcome (write_frame V st packet rw) (\<lambda>(res, st', es). Done (res, st', es, q')))"

definition quicgo_WriteRTPBytes ::
  "('q, 'c, 's) quic_go \<Rightarrow> varint_lib \<Rightarrow> 's QUICGoSendStream \<Rightarrow> RTPSendStream \<Rightarrow> byte list \<Rightarrow> 'q \<Rightarrow>
     ((int \<times> goerror option) \<times> RTPSendStream \<times> effect list \<times> 'q) outcome" where
  "quicgo_WriteRTPBytes L V s st packet q =
     (if rss_pending st \<noteq> [] then
        (case QUICGoSendStream_Write L s (rss_pending st) q of
           (rf, q1) \<Rightarrow> bind_outcome (flush st rf) (\<lambda>(err, st1, es).
             if err \<noteq> None then Done ((0, err), st1, es, q1)
             else bind_outcome (quicgo_write_frame L V s st1 packet q1) (\<lambda>(res, st2, es2, q2).
                    Done (res, st2, es @ es2, q2))))
      else quicgo_write_frame L V s st packet q)"

text \<open>The results of quic-go are the arguments of the model of \<open>rtp_send_stream.go\<close>.\<close>

lemma quicgo_write_frame_model:
  assumes "quicgo_write_frame L V s st packet q = Done (res, st', es, q')"
  shows "\<exists>rw. write_frame V st packet rw = Done (res, st', es)"
proof -
  obtain header where h: "vi_Append V (if rss_sentFlowID st then [] else rss_flowIDBytes st)
      (word_of_nat (length packet)) = Done header"
    using assms by (auto simp: quicgo_write_frame_def bind_outcome_Done_iff)
  obtain rw q1 where "QUICGoSendStream_Write L s (header @ packet) q = (rw, q1)"
    by (cases "QUICGoSendStream_Write L s (header @ packet) q")
  then show ?thesis
    using assms h
    by (intro exI [of _ rw]) (auto simp: quicgo_write_frame_def bind_outcome_Done_iff simp del: if_split)
qed

lemma quicgo_WriteRTPBytes_model:
  assumes "quicgo_WriteRTPBytes L V s st packet q = Done (res, st', es, q')"
  shows "\<exists>rf rw. WriteRTPBytes V st packet rf rw = Done (res, st', es)"
proof (cases "rss_pending st = []")
  case True
  then show ?thesis
    using assms quicgo_write_frame_model [of L V s st packet q]
    by (auto simp: quicgo_WriteRTPBytes_def WriteRTPBytes_def)
next
  case False
  obtain rf q1 where rf: "QUICGoSendStream_Write L s (rss_pending st) q = (rf, q1)"
    by (cases "QUICGoSendStream_Write L s (rss_pending st) q")
  obtain err st1 es1 where f: "flush st rf = Done (err, st1, es1)"
    using assms False rf by (auto simp: quicgo_WriteRTPBytes_def bind_outcome_Done_iff)
  show ?thesis
  proof (cases err)
    case None
    obtain es2 where w: "quicgo_write_frame L V s st1 packet q1 = Done (res, st', es2, q')" "es = es1 @ es2"
      using assms False rf f None by (auto simp: quicgo_WriteRTPBytes_def bind_outcome_Done_iff)
    then obtain rw where "write_frame V st1 packet rw = Done (res, st', es2)"
      using quicgo_write_frame_model [OF w(1)] by blast
    then have "WriteRTPBytes V st packet rf rw = Done (res, st', es)"
      using False f None w(2) by (simp add: WriteRTPBytes_def)
    then show ?thesis by blast
  next
    case (Some e)
    then have "WriteRTPBytes V st packet rf (0, None) = Done (res, st', es)"
      using assms False rf f by (simp add: quicgo_WriteRTPBytes_def WriteRTPBytes_def)
    then show ?thesis by blast
  qed
qed

section \<open>Properties\<close>

text \<open>Opening a send stream over quic-go. The priority and incremental arguments make no difference;
  the call fails exactly if the flow is closed or quic-go fails to open a stream, with that error; and
  otherwise the stream has quic-go's ID, the flow's ID in front, nothing sent, and was registered.\<close>

lemma quicgo_send_stream:
  "quicgo_NewSendStream L c f prio inc ctxDone ref q =
     (case sf_isClosed f of
        Some e \<Rightarrow> (Inl e, f, [])
      | None \<Rightarrow>
          (case fst (Conn_OpenUniStreamSync L (qgc_conn c) ctxDone q) of
             Inl e \<Rightarrow> (Inl e, f, [])
           | Inr s \<Rightarrow>
               (Inr (newRTPSendStream (Stream_StreamID L s) (sf_id f) (sf_flowID f) (sf_qlog f)),
                f\<lparr>sf_streams := sf_streams f @ [ref]\<rparr>,
                qlog_if (sf_qlog f) (\<lambda>_. StreamOpened (sf_id f) (word_of_int (Stream_StreamID L s))))))"
  by (simp add: quicgo_NewSendStream_def NewSendStream_def NewSendStream_append_def quicgo_opened_def
      QUICGoConnection_OpenUniStreamSync_def QUICGoSendStream_ID_def Let_def
      split: option.split sum.split prod.split)

text \<open>The whole logging chain over quic-go. A session without a trace of its own logs to the trace of
  its connection; if that comes from \<open>DefaultConnectionTracer\<close>, whose trace accepts the schemas it was
  given, the session logs to a producer of it, and without \<open>QLOGDIR\<close> it does not log.\<close>

lemma quicgo_session_trace:
  assumes "\<And>client i schemas t. tracer client i schemas = Some t \<Longrightarrow>
      \<forall>x \<in> set schemas. SupportsSchemas t x"
    and "Conn_QlogTrace L conn q = DefaultConnectionTracer tracer quicSchema isClient connID"
    and "newSessionConfig opts = Inr config" and "qlogTrace config = None"
  shows "\<exists>s. NewSession (Some (quicgo_conn L (NewQUICGoConnection conn) q)) accept opts = Inr s \<and>
    s_qlog s = map_option (\<lambda>t. \<lparr>recorder = AddProducer t, logData = qlogPacketData config,
        dataLimit = qlogPacketDataLimit config\<rparr>) (Conn_QlogTrace L conn q)"
proof (cases "Conn_QlogTrace L conn q")
  case None
  then show ?thesis
    using assms(3,4)
    by (simp add: NewSession_def start_def newSession_def newQlogger_def quicgo_conn_def
        QUICGoConnection_QlogTrace_def NewQUICGoConnection_def)
next
  case (Some t)
  then have "SupportsSchemas t EventSchema"
    using assms(1) [of isClient connID "[quicSchema, EventSchema]" t] assms(2)
    by (simp add: DefaultConnectionTracer_def)
  then show ?thesis
    using assms(3,4) Some
    by (simp add: NewSession_def start_def newSession_def newQlogger_def quicgo_conn_def
        QUICGoConnection_QlogTrace_def NewQUICGoConnection_def)
qed

text \<open>A package whose streams are their IDs, which opens stream 4 and logs to the given trace.\<close>

definition sample_quic :: "trace option \<Rightarrow> (unit, unit, int) quic_go" where
  "sample_quic t =
     \<lparr>Stream_StreamID = (\<lambda>s. s), Stream_CancelRead = (\<lambda>s c q. q), Stream_Read = (\<lambda>s n q. (([], Some io_EOF), q)),
      Stream_Write = (\<lambda>s b q. ((int (length b), None), q)), Stream_Close = (\<lambda>s q. (None, q)),
      Stream_CancelWrite = (\<lambda>s c q. q), Conn_SendDatagram = (\<lambda>c b q. (None, q)),
      Conn_ReceiveDatagram = (\<lambda>c ctx q. (Inl io_EOF, q)), Conn_OpenUniStreamSync = (\<lambda>c ctx q. (Inr 4, q)),
      Conn_AcceptUniStream = (\<lambda>c ctx q. (Inl io_EOF, q)), Conn_QlogTrace = (\<lambda>c q. t),
      Conn_CloseWithError = (\<lambda>c code why q. (None, q))\<rparr>"

definition sample_tracer :: "bool \<Rightarrow> nat \<Rightarrow> string list \<Rightarrow> trace option" where
  "sample_tracer isClient connID schemas = Some \<lparr>SupportsSchemas = (\<lambda>x. x \<in> set schemas), AddProducer = 5\<rparr>"

end
