(* ===== verification/Interop_Sender.thy ===== *)
theory Interop_Sender
  imports Quic_Connection
begin

text \<open>
  \<open>examples/interop/sender.go\<close>: a sender reads frames, cuts them into RTP packets and sends these as
  datagrams, on a stream per frame or on one stream. It runs on a session over quic-go, both as in the
  other theories; RTP packets and the packetizer come from package \<open>rtp\<close>, which is the parameter \<open>rtp\<close>.
  The frame reader is an interface: what its calls return is a list, and a loop that has used up the
  list waits for the next frame.
\<close>

section \<open>Modes, frames and packets\<close>

text \<open>\<open>mode\<close> is an \<open>int\<close> with three named values; the command line may give others.\<close>

type_synonym mode = int

definition datagramMode :: mode where "datagramMode = 0"
definition streamPerFrameMode :: mode where "streamPerFrameMode = 1"
definition singleStreamMode :: mode where "singleStreamMode = 2"

lemmas mode_defs = datagramMode_def streamPerFrameMode_def singleStreamMode_def

record ('z, 'p) rtp =
  Packetize :: "byte list \<Rightarrow> 32 word \<Rightarrow> 'z \<Rightarrow> 'p list \<times> 'z"
  Marshal :: "'p \<Rightarrow> goerror + byte list"

text \<open>
  A sender at work: its session, the send streams of its flows by reference, each on its QUIC stream,
  the packetizer and the state of quic-go.
\<close>

record sender =
  snd_session :: Session

record ('q, 's, 'z) sending = sender +
  snd_streams :: "nat \<Rightarrow> (RTPSendStream \<times> 's QUICGoSendStream) option"
  snd_next :: nat
  snd_packetizer :: 'z
  snd_quic :: 'q

definition newSender ::
  "('q, 'c, 's) quic_go \<Rightarrow> 'c QUICGoConnection \<Rightarrow> 'q \<Rightarrow> goerror + sender" where
  "newSender L conn q =
     (case NewSession (Some (quicgo_conn L conn q)) True [] of
        Inl err \<Rightarrow> Inl err
      | Inr session \<Rightarrow> Inr \<lparr>snd_session = session\<rparr>)"

section \<open>The calls on the flow and its streams\<close>

definition deref_stream :: "('q, 's, 'z) sending \<Rightarrow> nat \<Rightarrow> RTPSendStream" where
  "deref_stream w k = (case snd_streams w k of Some (st, _) \<Rightarrow> st | None \<Rightarrow> newRTPSendStream 0 0 [] None)"

definition flow_NewSendStream ::
  "('q, 'c, 's) quic_go \<Rightarrow> 'c QUICGoConnection \<Rightarrow> nat \<Rightarrow> ('q, 's, 'z) sending \<Rightarrow>
     ((goerror + nat) \<times> ('q, 's, 'z) sending) outcome" where
  "flow_NewSendStream L c ref w =
     (let s = snd_session w in
      case ss_flow (s_sstore s) ref of
        None \<Rightarrow> Panic ''nil pointer dereference''
      | Some f \<Rightarrow>
          (case sf_isClosed f of
             Some e \<Rightarrow> Done (Inl e, w)
           | None \<Rightarrow>
               (case QUICGoConnection_OpenUniStreamSync L c False (snd_quic w) of
                  (Inl e, q') \<Rightarrow> Done (Inl e, w\<lparr>snd_quic := q'\<rparr>)
                | (Inr h, q') \<Rightarrow>
                    (case NewSendStream f 0 False (quicgo_opened L (Inr h)) (snd_next w) of
                       (Inl e, f', _) \<Rightarrow> Done (Inl e, w\<lparr>snd_quic := q'\<rparr>)
                     | (Inr st, f', _) \<Rightarrow>
                         Done (Inr (snd_next w),
                           w\<lparr>snd_quic := q', snd_next := Suc (snd_next w),
                             snd_streams := (snd_streams w)(snd_next w \<mapsto> (st, h)),
                             snd_session := s\<lparr>s_sstore := (s_sstore s)
                               \<lparr>ss_flow := (ss_flow (s_sstore s))(ref \<mapsto> f')\<rparr>\<rparr>\<rparr>)))))"

definition stream_write ::
  "('q, 'c, 's) quic_go \<Rightarrow> varint_lib \<Rightarrow> nat \<Rightarrow> byte list \<Rightarrow> ('q, 's, 'z) sending \<Rightarrow>
     (goerror option \<times> ('q, 's, 'z) sending) outcome" where
  "stream_write L V k packet w =
     (case snd_streams w k of
        None \<Rightarrow> Panic ''nil pointer dereference''
      | Some (st, h) \<Rightarrow>
          bind_outcome (quicgo_WriteRTPBytes L V h st packet (snd_quic w)) (\<lambda>((n, err), st', _, q').
            Done (err, w\<lparr>snd_streams := (snd_streams w)(k \<mapsto> (st', h)), snd_quic := q'\<rparr>)))"

definition stream_close ::
  "('q, 'c, 's) quic_go \<Rightarrow> nat \<Rightarrow> ('q, 's, 'z) sending \<Rightarrow> (goerror option \<times> ('q, 's, 'z) sending) outcome" where
  "stream_close L k w =
     (case snd_streams w k of
        None \<Rightarrow> Panic ''nil pointer dereference''
      | Some (st, h) \<Rightarrow>
          (case QUICGoSendStream_Close L h (snd_quic w) of
             (e, q') \<Rightarrow> Done (fst (RTPSendStream_Close st e), w\<lparr>snd_quic := q'\<rparr>)))"

definition flow_write ::
  "('q, 'c, 's) quic_go \<Rightarrow> 'c QUICGoConnection \<Rightarrow> nat \<Rightarrow> byte list \<Rightarrow> ('q, 's, 'z) sending \<Rightarrow>
     (goerror option \<times> ('q, 's, 'z) sending) outcome" where
  "flow_write L c ref packet w =
     (case ss_flow (s_sstore (snd_session w)) ref of
        None \<Rightarrow> Panic ''nil pointer dereference''
      | Some f \<Rightarrow>
          (case sf_isClosed f of
             Some e \<Rightarrow> Done (Some e, w)
           | None \<Rightarrow>
               (case QUICGoConnection_SendDatagram L c (sf_flowID f @ packet) (snd_quic w) of
                  (e, q') \<Rightarrow> Done (fst (SendFlow_WriteRTPBytes f packet e), w\<lparr>snd_quic := q'\<rparr>))))"

text \<open>\<open>flow.Close()\<close>, whose error the sender drops: every stream, then the flow.\<close>

fun close_all ::
  "('q, 'c, 's) quic_go \<Rightarrow> nat list \<Rightarrow> ('q, 's, 'z) sending \<Rightarrow> ('q, 's, 'z) sending outcome" where
  "close_all L [] w = Done w"
| "close_all L (k # ks) w = bind_outcome (stream_close L k w) (\<lambda>(_, w'). close_all L ks w')"

definition flow_close ::
  "('q, 'c, 's) quic_go \<Rightarrow> nat \<Rightarrow> ('q, 's, 'z) sending \<Rightarrow> ('q, 's, 'z) sending outcome" where
  "flow_close L ref w =
     (case ss_flow (s_sstore (snd_session w)) ref of
        None \<Rightarrow> Panic ''nil pointer dereference''
      | Some f \<Rightarrow>
          bind_outcome (close_all L (sf_streams f) w) (\<lambda>w'.
            case close_send_flow (deref_stream w') (\<lambda>_. None) ref (snd_session w') of
              (_, s', _) \<Rightarrow> Done (w'\<lparr>snd_session := s'\<rparr>)))"

section \<open>Sending\<close>

fun sendDatagrams ::
  "('q, 'c, 's) quic_go \<Rightarrow> ('z, 'p) rtp \<Rightarrow> 'c QUICGoConnection \<Rightarrow> nat \<Rightarrow> 'p list \<Rightarrow> ('q, 's, 'z) sending \<Rightarrow>
     (goerror option \<times> ('q, 's, 'z) sending) outcome" where
  "sendDatagrams L R c flow [] w = Done (None, w)"
| "sendDatagrams L R c flow (pkt # pkts) w =
     (case Marshal R pkt of
        Inl err \<Rightarrow> Done (Some err, w)
      | Inr buf \<Rightarrow>
          bind_outcome (flow_write L c flow buf w) (\<lambda>(err, w1).
            if err \<noteq> None then Done (err, w1) else sendDatagrams L R c flow pkts w1))"

fun sendStream ::
  "('q, 'c, 's) quic_go \<Rightarrow> varint_lib \<Rightarrow> ('z, 'p) rtp \<Rightarrow> nat \<Rightarrow> 'p list \<Rightarrow> ('q, 's, 'z) sending \<Rightarrow>
     (goerror option \<times> ('q, 's, 'z) sending) outcome" where
  "sendStream L V R stream [] w = Done (None, w)"
| "sendStream L V R stream (pkt # pkts) w =
     (case Marshal R pkt of
        Inl err \<Rightarrow> Done (Some err, w)
      | Inr buf \<Rightarrow>
          bind_outcome (stream_write L V stream buf w) (\<lambda>(err, w1).
            if err \<noteq> None then Done (err, w1) else sendStream L V R stream pkts w1))"

text \<open>One round of the loop of \<open>send\<close>, behind the frame reader.\<close>

definition send_frame ::
  "('q, 'c, 's) quic_go \<Rightarrow> varint_lib \<Rightarrow> ('z, 'p) rtp \<Rightarrow> 'c QUICGoConnection \<Rightarrow> nat \<Rightarrow> nat option \<Rightarrow> mode \<Rightarrow>
     byte list \<Rightarrow> ('q, 's, 'z) sending \<Rightarrow> (goerror option \<times> ('q, 's, 'z) sending) outcome" where
  "send_frame L V R c flow singleStream sendMode fr w =
     (case Packetize R fr 1 (snd_packetizer w) of
        (packets, z) \<Rightarrow>
          (let w1 = w\<lparr>snd_packetizer := z\<rparr> in
           if sendMode = datagramMode then sendDatagrams L R c flow packets w1
           else if sendMode = streamPerFrameMode then
             bind_outcome (flow_NewSendStream L c flow w1) (\<lambda>(res, w2).
               case res of
                 Inl err \<Rightarrow> Done (Some err, w2)
               | Inr stream \<Rightarrow>
                   bind_outcome (sendStream L V R stream packets w2) (\<lambda>(err, w3).
                     if err \<noteq> None then Done (err, w3) else stream_close L stream w3))
           else if sendMode = singleStreamMode then
             (case singleStream of
                None \<Rightarrow> Panic ''nil pointer dereference''
              | Some stream \<Rightarrow> sendStream L V R stream packets w1)
           else Done (None, w1)))"

text \<open>The loop: \<open>None\<close> while it waits for the next frame, else what \<open>send\<close> returns.\<close>

fun send_loop ::
  "('q, 'c, 's) quic_go \<Rightarrow> varint_lib \<Rightarrow> ('z, 'p) rtp \<Rightarrow> 'c QUICGoConnection \<Rightarrow> nat \<Rightarrow> nat option \<Rightarrow> mode \<Rightarrow>
     (goerror + byte list) list \<Rightarrow> ('q, 's, 'z) sending \<Rightarrow>
     (goerror option option \<times> ('q, 's, 'z) sending) outcome" where
  "send_loop L V R c flow single sendMode [] w = Done (None, w)"
| "send_loop L V R c flow single sendMode (Inl err # reads) w =
     Done (Some (if err = io_EOF then None else Some err), w)"
| "send_loop L V R c flow single sendMode (Inr fr # reads) w =
     bind_outcome (send_frame L V R c flow single sendMode fr w) (\<lambda>(err, w1).
       if err \<noteq> None then Done (Some err, w1) else send_loop L V R c flow single sendMode reads w1)"

text \<open>The deferred calls run when \<open>send\<close> returns: the flow first, then the single stream.\<close>

definition send_deferred ::
  "('q, 'c, 's) quic_go \<Rightarrow> nat \<Rightarrow> nat option \<Rightarrow> goerror option option \<times> ('q, 's, 'z) sending \<Rightarrow>
     (goerror option option \<times> ('q, 's, 'z) sending) outcome" where
  "send_deferred L flow single = (\<lambda>(res, w).
     case res of
       None \<Rightarrow> Done (None, w)
     | Some err \<Rightarrow>
         bind_outcome (flow_close L flow w) (\<lambda>w1.
           case single of
             None \<Rightarrow> Done (Some err, w1)
           | Some k \<Rightarrow> bind_outcome (stream_close L k w1) (\<lambda>(_, w2). Done (Some err, w2))))"

definition send ::
  "('q, 'c, 's) quic_go \<Rightarrow> varint_lib \<Rightarrow> ('z, 'p) rtp \<Rightarrow> 'c QUICGoConnection \<Rightarrow> u64 \<Rightarrow>
     (goerror + byte list) list \<Rightarrow> mode \<Rightarrow> ('q, 's, 'z) sending \<Rightarrow>
     (goerror option option \<times> ('q, 's, 'z) sending) outcome" where
  "send L V R c flowID reads sendMode w =
     bind_outcome (NewSendFlow V (snd_session w) flowID) (\<lambda>(res, s).
       let w1 = w\<lparr>snd_session := s\<rparr> in
       case res of
         Inl err \<Rightarrow> Done (Some (Some err), w1)
       | Inr flow \<Rightarrow>
           if sendMode = singleStreamMode then
             bind_outcome (flow_NewSendStream L c flow w1) (\<lambda>(res, w2).
               case res of
                 Inl err \<Rightarrow> Done (Some (Some err), w2)
               | Inr k \<Rightarrow>
                   bind_outcome (send_loop L V R c flow (Some k) sendMode reads w2)
                     (send_deferred L flow (Some k)))
           else
             bind_outcome (send_loop L V R c flow None sendMode reads w1) (send_deferred L flow None))"

definition sender_Close ::
  "(nat \<Rightarrow> RTPSendStream) \<Rightarrow> close_results \<Rightarrow> sender \<Rightarrow> (goerror option \<times> sender \<times> effect list) outcome" where
  "sender_Close deref cr s =
     bind_outcome (Session_Close deref cr (snd_session s)) (\<lambda>(e, session, es).
       Done (e, s\<lparr>snd_session := session\<rparr>, es))"

section \<open>A connection that works\<close>

text \<open>
  What is assumed of quic-go when all goes well: \<open>net\<close> are the streams opened so far, in order, with the
  bytes accepted on each, and \<open>dgrams\<close> the datagrams sent. Opening gives a new stream, a write on an open
  stream takes everything, closing a stream and sending a datagram succeed.
\<close>

definition append_to :: "'s \<Rightarrow> byte list \<Rightarrow> ('s \<times> byte list) list \<Rightarrow> ('s \<times> byte list) list" where
  "append_to h b net = map (\<lambda>(x, d). (x, if x = h then d @ b else d)) net"

definition quic_reliable ::
  "('q, 'c, 's) quic_go \<Rightarrow> 'c QUICGoConnection \<Rightarrow> ('q \<Rightarrow> ('s \<times> byte list) list) \<Rightarrow>
     ('q \<Rightarrow> byte list list) \<Rightarrow> bool" where
  "quic_reliable L c net dgrams \<longleftrightarrow>
     (\<forall>q. \<exists>h q'. Conn_OpenUniStreamSync L (qgc_conn c) False q = (Inr h, q') \<and>
        h \<notin> fst ` set (net q) \<and> net q' = net q @ [(h, [])] \<and> dgrams q' = dgrams q) \<and>
     (\<forall>q h b. h \<in> fst ` set (net q) \<longrightarrow>
        (\<exists>q'. Stream_Write L h b q = ((int (length b), None), q') \<and>
           net q' = append_to h b (net q) \<and> dgrams q' = dgrams q)) \<and>
     (\<forall>q h. h \<in> fst ` set (net q) \<longrightarrow>
        (\<exists>q'. Stream_Close L h q = (None, q') \<and> net q' = net q \<and> dgrams q' = dgrams q)) \<and>
     (\<forall>q b. \<exists>q'. Conn_SendDatagram L (qgc_conn c) b q = (None, q') \<and>
        net q' = net q \<and> dgrams q' = dgrams q @ [b])"

lemma quic_reliableD:
  assumes "quic_reliable L c net dgrams"
  shows "\<exists>h q'. Conn_OpenUniStreamSync L (qgc_conn c) False q = (Inr h, q') \<and>
      h \<notin> fst ` set (net q) \<and> net q' = net q @ [(h, [])] \<and> dgrams q' = dgrams q"
    and "h \<in> fst ` set (net q) \<Longrightarrow> \<exists>q'. Stream_Write L h b q = ((int (length b), None), q') \<and>
      net q' = append_to h b (net q) \<and> dgrams q' = dgrams q"
    and "h \<in> fst ` set (net q) \<Longrightarrow> \<exists>q'. Stream_Close L h q = (None, q') \<and> net q' = net q \<and> dgrams q' = dgrams q"
    and "\<exists>q'. Conn_SendDatagram L (qgc_conn c) b q = (None, q') \<and> net q' = net q \<and> dgrams q' = dgrams q @ [b]"
  using assms by (simp_all add: quic_reliable_def)

text \<open>Packets that can be marshalled, and what the packetizer makes of the frames.\<close>

definition rtp_ok :: "('z, 'p) rtp \<Rightarrow> bool" where
  "rtp_ok R \<longleftrightarrow> (\<forall>p. \<exists>b. Marshal R p = Inr b \<and> packet_ok b)"

definition payload :: "('z, 'p) rtp \<Rightarrow> 'p \<Rightarrow> byte list" where
  "payload R p = (case Marshal R p of Inr b \<Rightarrow> b | Inl e \<Rightarrow> [])"

fun packetised :: "('z, 'p) rtp \<Rightarrow> 32 word \<Rightarrow> byte list list \<Rightarrow> 'z \<Rightarrow> byte list list list" where
  "packetised R samples [] z = []"
| "packetised R samples (fr # frames) z =
     (case Packetize R fr samples z of (ps, z') \<Rightarrow> map (payload R) ps # packetised R samples frames z')"

text \<open>The bytes of a stream that carries some packets of a flow: nothing, not even the ID, without packets.\<close>

definition stream_bytes :: "varint_lib \<Rightarrow> u64 \<Rightarrow> byte list list \<Rightarrow> byte list" where
  "stream_bytes V i ps = (if ps = [] then [] else vi_enc V i @ concat (map (frame V) ps))"

lemma Marshal_payload: "rtp_ok R \<Longrightarrow> Marshal R p = Inr (payload R p) \<and> packet_ok (payload R p)"
  by (auto simp: rtp_ok_def payload_def dest!: spec [of _ p])

lemma append_to_fst [simp]: "fst ` set (append_to h b net) = fst ` set net"
  by (force simp: append_to_def image_iff)

lemma append_to_Nil [simp]: "append_to h [] net = net"
  by (induction net) (auto simp: append_to_def)

lemma append_to_append [simp]: "append_to h b' (append_to h b net) = append_to h (b @ b') net"
  by (induction net) (auto simp: append_to_def)

lemma append_to_new: "h \<notin> fst ` set net \<Longrightarrow> append_to h b (net @ [(h, d)]) = net @ [(h, d @ b)]"
  by (induction net) (auto simp: append_to_def)

text \<open>Writing on a stream leaves the session and the packetizer alone.\<close>

definition same_but_streams :: "('q, 's, 'z) sending \<Rightarrow> ('q, 's, 'z) sending \<Rightarrow> bool" where
  "same_but_streams w w' \<longleftrightarrow>
     snd_session w' = snd_session w \<and> snd_next w' = snd_next w \<and> snd_packetizer w' = snd_packetizer w"

text \<open>A send stream between writes of a reliable connection: \<open>ps\<close> were written.\<close>

definition wrote :: "varint_lib \<Rightarrow> u64 \<Rightarrow> byte list list \<Rightarrow> RTPSendStream \<Rightarrow> bool" where
  "wrote V i ps st \<longleftrightarrow> rss_pending st = [] \<and> rss_flowIDBytes st = vi_enc V i \<and> (rss_sentFlowID st \<longleftrightarrow> ps \<noteq> [])"

context quicvarint
begin

lemma reliable_write:
  assumes "quic_reliable L c net dgrams" and "qgs_stream h \<in> fst ` set (net q)" and "packet_ok p"
    and "wrote V i ps st"
  shows "\<exists>st' es q'. quicgo_WriteRTPBytes L V h st p q = Done ((int (length p), None), st', es, q') \<and>
    wrote V i (ps @ [p]) st' \<and> dgrams q' = dgrams q \<and>
    net q' = append_to (qgs_stream h) ((if ps = [] then vi_enc V i else []) @ frame V p) (net q)"
proof -
  let ?prefix = "if rss_sentFlowID st then [] else rss_flowIDBytes st"
  have ow: "owed st = ?prefix" "?prefix = (if ps = [] then vi_enc V i else [])"
    using assms(4) by (auto simp: owed_def wrote_def)
  have ap: "vi_Append V ?prefix (word_of_nat (length p)) = Done (?prefix @ vi_enc V (word_of_nat (length p)))"
    using Append_fits packet_ok_fits [OF assms(3)] by simp
  let ?b = "?prefix @ frame V p"
  obtain q' where q': "Stream_Write L (qgs_stream h) ?b q = ((int (length ?b), None), q')"
    "net q' = append_to (qgs_stream h) ?b (net q)" "dgrams q' = dgrams q"
    using quic_reliableD(2) [OF assms(1,2), of ?b] by blast
  have "rss_pending st = []"
    using assms(4) by (simp add: wrote_def)
  moreover have "quicgo_write_frame L V h st p q = bind_outcome (write_frame V st p (int (length ?b), None))
      (\<lambda>(res, st', es). Done (res, st', es, q'))"
    using q'(1) by (simp add: quicgo_write_frame_def ap QUICGoSendStream_Write_def frame_def)
  moreover have "\<exists>st' es. write_frame V st p (int (length ?b), None) = Done ((int (length p), None), st', es) \<and>
      wrote V i (ps @ [p]) st'"
    using write_frame_eq [OF assms(3), of ?b st "int (length ?b)" None] assms(4) ow
    by (auto simp: wrote_def frame_def)
  ultimately show ?thesis
    using q'(2,3) ow(2) by (auto simp: quicgo_WriteRTPBytes_def)
qed

lemma reliable_sendStream:
  assumes "quic_reliable L c net dgrams" and "rtp_ok R" and "snd_streams w k = Some (st, h)"
    and "qgs_stream h \<in> fst ` set (net (snd_quic w))" and "wrote V i ps st"
    and "net (snd_quic w) = append_to (qgs_stream h) (stream_bytes V i ps) net0"
  shows "\<exists>w' st'. sendStream L V R k pkts w = Done (None, w') \<and>
    snd_streams w' = (snd_streams w)(k \<mapsto> (st', h)) \<and> wrote V i (ps @ map (payload R) pkts) st' \<and>
    same_but_streams w w' \<and> dgrams (snd_quic w') = dgrams (snd_quic w) \<and>
    net (snd_quic w') = append_to (qgs_stream h) (stream_bytes V i (ps @ map (payload R) pkts)) net0"
  using assms(3-6)
proof (induction pkts arbitrary: w st ps)
  case Nil
  then show ?case
    by (intro exI [of _ w] exI [of _ st]) (simp add: fun_upd_idem same_but_streams_def)
next
  case (Cons pkt pkts)
  let ?p = "payload R pkt"
  have m: "Marshal R pkt = Inr ?p" "packet_ok ?p"
    using Marshal_payload [OF assms(2)] by blast+
  obtain st1 es q1 where wr: "quicgo_WriteRTPBytes L V h st ?p (snd_quic w) = Done ((int (length ?p), None), st1, es, q1)"
    "wrote V i (ps @ [?p]) st1" "dgrams q1 = dgrams (snd_quic w)"
    "net q1 = append_to (qgs_stream h) ((if ps = [] then vi_enc V i else []) @ frame V ?p) (net (snd_quic w))"
    using reliable_write [OF assms(1) Cons.prems(2) m(2) Cons.prems(3)] by blast
  define w1 where "w1 = w\<lparr>snd_streams := (snd_streams w)(k \<mapsto> (st1, h)), snd_quic := q1\<rparr>"
  have w1: "stream_write L V k ?p w = Done (None, w1)"
    using Cons.prems(1) wr(1) by (simp add: stream_write_def w1_def)
  have f1: "snd_streams w1 = (snd_streams w)(k \<mapsto> (st1, h))" "snd_quic w1 = q1" "same_but_streams w w1"
    by (simp_all add: w1_def same_but_streams_def)
  have net1: "net (snd_quic w1) = append_to (qgs_stream h) (stream_bytes V i (ps @ [?p])) net0"
    unfolding f1 wr(4) Cons.prems(4) by (simp add: stream_bytes_def)
  have in1: "qgs_stream h \<in> fst ` set (net (snd_quic w1))" and k1: "snd_streams w1 k = Some (st1, h)"
    using Cons.prems(2) wr(4) f1(1,2) by simp_all
  obtain w' st' where "sendStream L V R k pkts w1 = Done (None, w')"
    "snd_streams w' = (snd_streams w1)(k \<mapsto> (st', h))" "wrote V i ((ps @ [?p]) @ map (payload R) pkts) st'"
    "same_but_streams w1 w'" "dgrams (snd_quic w') = dgrams (snd_quic w1)"
    "net (snd_quic w') = append_to (qgs_stream h) (stream_bytes V i ((ps @ [?p]) @ map (payload R) pkts)) net0"
    using Cons.IH [OF k1 in1 wr(2) net1] by blast
  then show ?case
    using w1 m(1) f1 wr(3) by (intro exI [of _ w'] exI [of _ st']) (simp add: same_but_streams_def fun_upd_upd)
qed

end

section \<open>The flow while it sends\<close>

text \<open>The flow is open, and its streams are open streams of the connection.\<close>

definition flow_ready ::
  "varint_lib \<Rightarrow> u64 \<Rightarrow> nat \<Rightarrow> ('q \<Rightarrow> ('s \<times> byte list) list) \<Rightarrow> ('q, 's, 'z) sending \<Rightarrow> bool" where
  "flow_ready V i ref net w \<longleftrightarrow>
     (\<exists>f. ss_flow (s_sstore (snd_session w)) ref = Some f \<and> sf_closedErr f = None \<and> sf_id f = i \<and>
        sf_flowID f = vi_enc V i \<and>
        (\<forall>k \<in> set (sf_streams f). k < snd_next w \<and>
           (\<exists>st h. snd_streams w k = Some (st, h) \<and> qgs_stream h \<in> fst ` set (net (snd_quic w)))))"

lemma flow_ready_same:
  assumes "flow_ready V i ref net w" and "snd_session w' = snd_session w" and "snd_next w' = snd_next w"
    and "\<And>k st h. snd_streams w k = Some (st, h) \<Longrightarrow> \<exists>st'. snd_streams w' k = Some (st', h)"
    and "fst ` set (net (snd_quic w)) \<subseteq> fst ` set (net (snd_quic w'))"
  shows "flow_ready V i ref net w'"
proof -
  obtain f where f: "ss_flow (s_sstore (snd_session w)) ref = Some f" "sf_closedErr f = None" "sf_id f = i"
    "sf_flowID f = vi_enc V i"
    "\<forall>k \<in> set (sf_streams f). k < snd_next w \<and>
      (\<exists>st h. snd_streams w k = Some (st, h) \<and> qgs_stream h \<in> fst ` set (net (snd_quic w)))"
    using assms(1) unfolding flow_ready_def by blast
  have "\<forall>k \<in> set (sf_streams f). k < snd_next w' \<and>
      (\<exists>st h. snd_streams w' k = Some (st, h) \<and> qgs_stream h \<in> fst ` set (net (snd_quic w')))"
  proof
    fix k
    assume "k \<in> set (sf_streams f)"
    then obtain st h where k: "k < snd_next w" "snd_streams w k = Some (st, h)"
      "qgs_stream h \<in> fst ` set (net (snd_quic w))"
      using f(5) by blast
    then show "k < snd_next w' \<and>
        (\<exists>st h. snd_streams w' k = Some (st, h) \<and> qgs_stream h \<in> fst ` set (net (snd_quic w')))"
      using assms(3) assms(4) [OF k(2)] subsetD [OF assms(5) k(3)] k(1) by auto
  qed
  then show ?thesis
    using f(1-4) assms(2) by (auto simp: flow_ready_def)
qed

lemma reliable_open:
  assumes "quic_reliable L c net dgrams" and "flow_ready V i ref net w"
  obtains w' st h where "flow_NewSendStream L c ref w = Done (Inr (snd_next w), w')"
    "snd_streams w' (snd_next w) = Some (st, h)" "wrote V i [] st"
    "qgs_stream h \<notin> fst ` set (net (snd_quic w))"
    "net (snd_quic w') = net (snd_quic w) @ [(qgs_stream h, [])]" "dgrams (snd_quic w') = dgrams (snd_quic w)"
    "flow_ready V i ref net w'" "snd_packetizer w' = snd_packetizer w"
proof -
  let ?s = "snd_session w" and ?k = "snd_next w"
  obtain f where f: "ss_flow (s_sstore ?s) ref = Some f" "sf_closedErr f = None" "sf_id f = i"
    "sf_flowID f = vi_enc V i"
    "\<forall>k \<in> set (sf_streams f). k < ?k \<and>
      (\<exists>st h. snd_streams w k = Some (st, h) \<and> qgs_stream h \<in> fst ` set (net (snd_quic w)))"
    using assms(2) unfolding flow_ready_def by blast
  obtain h q' where o: "Conn_OpenUniStreamSync L (qgc_conn c) False (snd_quic w) = (Inr h, q')"
    "h \<notin> fst ` set (net (snd_quic w))" "net q' = net (snd_quic w) @ [(h, [])]" "dgrams q' = dgrams (snd_quic w)"
    using quic_reliableD(1) [OF assms(1)] by blast
  define st where "st = newRTPSendStream (Stream_StreamID L h) i (vi_enc V i) (sf_qlog f)"
  define f' where "f' = f\<lparr>sf_streams := sf_streams f @ [?k]\<rparr>"
  define w' where "w' = w\<lparr>snd_quic := q', snd_next := Suc ?k,
    snd_streams := (snd_streams w)(?k \<mapsto> (st, \<lparr>qgs_stream = h\<rparr>)),
    snd_session := ?s\<lparr>s_sstore := (s_sstore ?s)\<lparr>ss_flow := (ss_flow (s_sstore ?s))(ref \<mapsto> f')\<rparr>\<rparr>\<rparr>"
  have "flow_NewSendStream L c ref w = Done (Inr ?k, w')"
    using f(1-4) o(1)
    by (simp add: flow_NewSendStream_def sf_isClosed_def QUICGoConnection_OpenUniStreamSync_def
        NewSendStream_def NewSendStream_append_def quicgo_opened_def QUICGoSendStream_ID_def w'_def st_def f'_def Let_def)
  moreover have "flow_ready V i ref net w'"
    unfolding flow_ready_def
    using f(2-5) o(3) by (intro exI [of _ f']) (fastforce simp: w'_def f'_def less_Suc_eq)
  ultimately show thesis
    using o(2-4) by (intro that [of w' st "\<lparr>qgs_stream = h\<rparr>"])
      (simp_all add: w'_def st_def wrote_def newRTPSendStream_def)
qed

lemma reliable_stream_close:
  assumes "quic_reliable L c net dgrams" and "snd_streams w k = Some (st, h)"
    and "qgs_stream h \<in> fst ` set (net (snd_quic w))"
  obtains q' where "stream_close L k w = Done (None, w\<lparr>snd_quic := q'\<rparr>)" "net q' = net (snd_quic w)"
    "dgrams q' = dgrams (snd_quic w)"
  using quic_reliableD(3) [OF assms(1,3)] assms(2) that
  by (auto simp: stream_close_def QUICGoSendStream_Close_def RTPSendStream_Close_def)

lemma reliable_close_all:
  assumes "quic_reliable L c net dgrams"
    and "\<forall>k \<in> set ks. \<exists>st h. snd_streams w k = Some (st, h) \<and> qgs_stream h \<in> fst ` set (net (snd_quic w))"
  shows "\<exists>q'. close_all L ks w = Done (w\<lparr>snd_quic := q'\<rparr>) \<and> net q' = net (snd_quic w) \<and>
    dgrams q' = dgrams (snd_quic w)"
  using assms(2)
proof (induction ks arbitrary: w)
  case Nil
  then show ?case
    by (intro exI [of _ "snd_quic w"]) simp
next
  case (Cons k ks)
  obtain st h where k: "snd_streams w k = Some (st, h)" "qgs_stream h \<in> fst ` set (net (snd_quic w))"
    using Cons.prems by auto
  obtain q1 where q1: "stream_close L k w = Done (None, w\<lparr>snd_quic := q1\<rparr>)" "net q1 = net (snd_quic w)"
    "dgrams q1 = dgrams (snd_quic w)"
    by (rule reliable_stream_close [OF assms(1) k])
  then show ?case
    using Cons.IH [of "w\<lparr>snd_quic := q1\<rparr>"] Cons.prems by auto
qed

lemma reliable_flow_close:
  assumes "quic_reliable L c net dgrams" and "flow_ready V i ref net w"
  obtains w' where "flow_close L ref w = Done w'" "net (snd_quic w') = net (snd_quic w)"
    "dgrams (snd_quic w') = dgrams (snd_quic w)" "snd_streams w' = snd_streams w"
proof -
  obtain f where f: "ss_flow (s_sstore (snd_session w)) ref = Some f"
    "\<forall>k \<in> set (sf_streams f). \<exists>st h. snd_streams w k = Some (st, h) \<and> qgs_stream h \<in> fst ` set (net (snd_quic w))"
    using assms(2) unfolding flow_ready_def by blast
  obtain q' where q': "close_all L (sf_streams f) w = Done (w\<lparr>snd_quic := q'\<rparr>)" "net q' = net (snd_quic w)"
    "dgrams q' = dgrams (snd_quic w)"
    using reliable_close_all [OF assms(1) f(2)] by blast
  obtain e s' es where "close_send_flow (deref_stream (w\<lparr>snd_quic := q'\<rparr>)) (\<lambda>_. None) ref (snd_session w) = (e, s', es)"
    by (metis surj_pair)
  with q' show thesis
    using f(1) by (intro that [of "w\<lparr>snd_quic := q', snd_session := s'\<rparr>"]) (simp_all add: flow_close_def)
qed

lemma reliable_sendDatagrams:
  assumes "quic_reliable L c net dgrams" and "rtp_ok R" and "flow_ready V i ref net w"
  shows "\<exists>q'. sendDatagrams L R c ref pkts w = Done (None, w\<lparr>snd_quic := q'\<rparr>) \<and> net q' = net (snd_quic w) \<and>
    dgrams q' = dgrams (snd_quic w) @ map (\<lambda>p. vi_enc V i @ payload R p) pkts"
  using assms(3)
proof (induction pkts arbitrary: w)
  case Nil
  then show ?case
    by (intro exI [of _ "snd_quic w"]) simp
next
  case (Cons pkt pkts)
  obtain f where f: "ss_flow (s_sstore (snd_session w)) ref = Some f" "sf_closedErr f = None"
    "sf_flowID f = vi_enc V i"
    using Cons.prems unfolding flow_ready_def by blast
  have m: "Marshal R pkt = Inr (payload R pkt)"
    using Marshal_payload [OF assms(2)] by blast
  obtain q1 where q1: "Conn_SendDatagram L (qgc_conn c) (vi_enc V i @ payload R pkt) (snd_quic w) = (None, q1)"
    "net q1 = net (snd_quic w)" "dgrams q1 = dgrams (snd_quic w) @ [vi_enc V i @ payload R pkt]"
    using quic_reliableD(4) [OF assms(1)] by blast
  have "flow_write L c ref (payload R pkt) w = Done (None, w\<lparr>snd_quic := q1\<rparr>)"
    using f q1(1) by (simp add: flow_write_def sf_isClosed_def QUICGoConnection_SendDatagram_def
        SendFlow_WriteRTPBytes_def Let_def)
  moreover have "flow_ready V i ref net (w\<lparr>snd_quic := q1\<rparr>)"
    by (rule flow_ready_same [OF Cons.prems]) (simp_all add: q1(2))
  ultimately show ?case
    using Cons.IH [of "w\<lparr>snd_quic := q1\<rparr>"] m q1(2,3) by auto
qed

section \<open>The loop\<close>

context quicvarint
begin

text \<open>A frame on a stream of its own.\<close>

lemma reliable_stream_of_packets:
  assumes "quic_reliable L c net dgrams" and "rtp_ok R" and "flow_ready V i ref net w"
  obtains k w1 w2 w' h where "flow_NewSendStream L c ref w = Done (Inr k, w1)" "snd_packetizer w1 = snd_packetizer w"
    "sendStream L V R k pkts (w1\<lparr>snd_packetizer := z\<rparr>) = Done (None, w2)" "stream_close L k w2 = Done (None, w')"
    "flow_ready V i ref net w'" "snd_packetizer w' = z"
    "net (snd_quic w') = net (snd_quic w) @ [(h, stream_bytes V i (map (payload R) pkts))]"
    "dgrams (snd_quic w') = dgrams (snd_quic w)"
proof -
  obtain w1 st h where w1: "flow_NewSendStream L c ref w = Done (Inr (snd_next w), w1)"
    "snd_streams w1 (snd_next w) = Some (st, h)" "wrote V i [] st"
    "qgs_stream h \<notin> fst ` set (net (snd_quic w))"
    "net (snd_quic w1) = net (snd_quic w) @ [(qgs_stream h, [])]" "dgrams (snd_quic w1) = dgrams (snd_quic w)"
    "flow_ready V i ref net w1" "snd_packetizer w1 = snd_packetizer w"
    by (rule reliable_open [OF assms(1,3)]) (rule that)
  let ?bs = "stream_bytes V i (map (payload R) pkts)" and ?w1 = "w1\<lparr>snd_packetizer := z\<rparr>"
  have "net (snd_quic ?w1) = append_to (qgs_stream h) (stream_bytes V i []) (net (snd_quic w1))"
    "qgs_stream h \<in> fst ` set (net (snd_quic ?w1))" "snd_streams ?w1 (snd_next w) = Some (st, h)"
    using w1(2,5) by (simp_all add: stream_bytes_def)
  then obtain w2 st2 where w2: "sendStream L V R (snd_next w) pkts ?w1 = Done (None, w2)"
    "snd_streams w2 = (snd_streams ?w1)(snd_next w \<mapsto> (st2, h))" "same_but_streams ?w1 w2"
    "dgrams (snd_quic w2) = dgrams (snd_quic ?w1)"
    "net (snd_quic w2) = append_to (qgs_stream h) (stream_bytes V i ([] @ map (payload R) pkts)) (net (snd_quic w1))"
    using reliable_sendStream [OF assms(1,2) _ _ w1(3), of ?w1 "snd_next w" h "net (snd_quic w1)" pkts] by blast
  have net2: "net (snd_quic w2) = net (snd_quic w) @ [(qgs_stream h, ?bs)]"
    using w2(5) w1(4,5) append_to_new [of "qgs_stream h" "net (snd_quic w)"] by simp
  have "snd_streams w2 (snd_next w) = Some (st2, h)" "qgs_stream h \<in> fst ` set (net (snd_quic w2))"
    using w2(2) net2 by simp_all
  then obtain q' where q': "stream_close L (snd_next w) w2 = Done (None, w2\<lparr>snd_quic := q'\<rparr>)"
    "net q' = net (snd_quic w2)" "dgrams q' = dgrams (snd_quic w2)"
    by (rule reliable_stream_close [OF assms(1)])
  have "flow_ready V i ref net (w2\<lparr>snd_quic := q'\<rparr>)"
    by (rule flow_ready_same [OF w1(7)])
      (use w2(2,3,5) w1(2) q'(2) in \<open>auto simp: same_but_streams_def\<close>)
  then show thesis
    using net2 q' w2(1,3,4) w1(1,6,8)
    by (intro that [of "snd_next w" w1 w2 "w2\<lparr>snd_quic := q'\<rparr>" "qgs_stream h"])
      (simp_all add: same_but_streams_def)
qed

lemma reliable_frame_stream:
  assumes "quic_reliable L c net dgrams" and "rtp_ok R" and "flow_ready V i ref net w"
    and "Packetize R fr 1 (snd_packetizer w) = (pkts, z)"
  obtains w' h where "send_frame L V R c ref single streamPerFrameMode fr w = Done (None, w')"
    "flow_ready V i ref net w'" "snd_packetizer w' = z"
    "net (snd_quic w') = net (snd_quic w) @ [(h, stream_bytes V i (map (payload R) pkts))]"
    "dgrams (snd_quic w') = dgrams (snd_quic w)"
proof -
  define w0 where "w0 = w\<lparr>snd_packetizer := z\<rparr>"
  have "flow_ready V i ref net w0"
    by (rule flow_ready_same [OF assms(3)]) (simp_all add: w0_def)
  then obtain k w1 w2 w' h where f: "flow_NewSendStream L c ref w0 = Done (Inr k, w1)"
    "snd_packetizer w1 = snd_packetizer w0"
    "sendStream L V R k pkts (w1\<lparr>snd_packetizer := z\<rparr>) = Done (None, w2)" "stream_close L k w2 = Done (None, w')"
    "flow_ready V i ref net w'" "snd_packetizer w' = z"
    "net (snd_quic w') = net (snd_quic w0) @ [(h, stream_bytes V i (map (payload R) pkts))]"
    "dgrams (snd_quic w') = dgrams (snd_quic w0)"
    by (rule reliable_stream_of_packets [OF assms(1,2)]) (rule that)
  have "w1\<lparr>snd_packetizer := z\<rparr> = w1"
    using f(2) by (cases w1) (simp add: w0_def)
  with f(3) have "sendStream L V R k pkts w1 = Done (None, w2)"
    by simp
  then show thesis
    using assms(4) f(1,4-8) by (intro that [of w' h]) (simp_all add: send_frame_def mode_defs w0_def)
qed

lemma reliable_loop_streams:
  assumes "quic_reliable L c net dgrams" and "rtp_ok R" and "flow_ready V i ref net w"
  shows "\<exists>w'. send_loop L V R c ref single streamPerFrameMode (map Inr frames @ Inl io_EOF # reads) w
      = Done (Some None, w') \<and> flow_ready V i ref net w' \<and> dgrams (snd_quic w') = dgrams (snd_quic w) \<and>
    map snd (net (snd_quic w')) =
      map snd (net (snd_quic w)) @ map (stream_bytes V i) (packetised R 1 frames (snd_packetizer w))"
  using assms(3)
proof (induction frames arbitrary: w)
  case (Cons fr frames)
  obtain pkts z where p: "Packetize R fr 1 (snd_packetizer w) = (pkts, z)"
    by (cases "Packetize R fr 1 (snd_packetizer w)")
  obtain w1 h where w1: "send_frame L V R c ref single streamPerFrameMode fr w = Done (None, w1)"
    "flow_ready V i ref net w1" "snd_packetizer w1 = z"
    "net (snd_quic w1) = net (snd_quic w) @ [(h, stream_bytes V i (map (payload R) pkts))]"
    "dgrams (snd_quic w1) = dgrams (snd_quic w)"
    by (rule reliable_frame_stream [OF assms(1,2) Cons.prems p]) (rule that)
  then show ?case
    using Cons.IH [OF w1(2)] p by auto
qed simp

lemma reliable_loop_datagrams:
  assumes "quic_reliable L c net dgrams" and "rtp_ok R" and "flow_ready V i ref net w"
  shows "\<exists>w'. send_loop L V R c ref single datagramMode (map Inr frames @ Inl io_EOF # reads) w
      = Done (Some None, w') \<and> flow_ready V i ref net w' \<and> net (snd_quic w') = net (snd_quic w) \<and>
    dgrams (snd_quic w') = dgrams (snd_quic w) @
      map (\<lambda>p. vi_enc V i @ p) (concat (packetised R 1 frames (snd_packetizer w)))"
  using assms(3)
proof (induction frames arbitrary: w)
  case (Cons fr frames)
  obtain pkts z where p: "Packetize R fr 1 (snd_packetizer w) = (pkts, z)"
    by (cases "Packetize R fr 1 (snd_packetizer w)")
  define w1 where "w1 = w\<lparr>snd_packetizer := z\<rparr>"
  have r1: "flow_ready V i ref net w1"
    by (rule flow_ready_same [OF Cons.prems]) (simp_all add: w1_def)
  obtain q' where q': "sendDatagrams L R c ref pkts w1 = Done (None, w1\<lparr>snd_quic := q'\<rparr>)"
    "net q' = net (snd_quic w1)" "dgrams q' = dgrams (snd_quic w1) @ map (\<lambda>p. vi_enc V i @ payload R p) pkts"
    using reliable_sendDatagrams [OF assms(1,2) r1] by blast
  have "flow_ready V i ref net (w1\<lparr>snd_quic := q'\<rparr>)"
    by (rule flow_ready_same [OF r1]) (simp_all add: q'(2))
  from Cons.IH [OF this] show ?case
    using p q' by (auto simp: send_frame_def w1_def comp_def)
qed simp

lemma reliable_loop_single:
  assumes "quic_reliable L c net dgrams" and "rtp_ok R" and "flow_ready V i ref net w"
    and "snd_streams w k = Some (st, h)" and "wrote V i ps st" and "qgs_stream h \<in> fst ` set (net (snd_quic w))"
    and "net (snd_quic w) = append_to (qgs_stream h) (stream_bytes V i ps) net0"
  shows "\<exists>w' st'. send_loop L V R c ref (Some k) singleStreamMode (map Inr frames @ Inl io_EOF # reads) w
      = Done (Some None, w') \<and> flow_ready V i ref net w' \<and> dgrams (snd_quic w') = dgrams (snd_quic w) \<and>
    snd_streams w' k = Some (st', h) \<and> net (snd_quic w') = append_to (qgs_stream h)
      (stream_bytes V i (ps @ concat (packetised R 1 frames (snd_packetizer w)))) net0"
  using assms(3-7)
proof (induction frames arbitrary: w st ps)
  case Nil
  then show ?case by (intro exI [of _ w] exI [of _ st]) simp
next
  case (Cons fr frames)
  obtain pkts z where p: "Packetize R fr 1 (snd_packetizer w) = (pkts, z)"
    by (cases "Packetize R fr 1 (snd_packetizer w)")
  define w1 where "w1 = w\<lparr>snd_packetizer := z\<rparr>"
  have r1: "flow_ready V i ref net w1"
    by (rule flow_ready_same [OF Cons.prems(1)]) (simp_all add: w1_def)
  have k1: "snd_streams w1 k = Some (st, h)" "qgs_stream h \<in> fst ` set (net (snd_quic w1))"
    "net (snd_quic w1) = append_to (qgs_stream h) (stream_bytes V i ps) net0"
    using Cons.prems(2,4,5) by (simp_all add: w1_def)
  obtain w2 st2 where w2: "sendStream L V R k pkts w1 = Done (None, w2)"
    "snd_streams w2 = (snd_streams w1)(k \<mapsto> (st2, h))" "wrote V i (ps @ map (payload R) pkts) st2"
    "same_but_streams w1 w2" "dgrams (snd_quic w2) = dgrams (snd_quic w1)"
    "net (snd_quic w2) = append_to (qgs_stream h) (stream_bytes V i (ps @ map (payload R) pkts)) net0"
    using reliable_sendStream [OF assms(1,2) k1(1,2) Cons.prems(3) k1(3)] by blast
  have net2: "fst ` set (net (snd_quic w2)) = fst ` set (net (snd_quic w1))"
    using w2(6) k1(3) by simp
  have r2: "flow_ready V i ref net w2"
    by (rule flow_ready_same [OF r1]) (use w2(2,4) net2 k1(1) in \<open>auto simp: same_but_streams_def\<close>)
  have k2: "snd_streams w2 k = Some (st2, h)" "qgs_stream h \<in> fst ` set (net (snd_quic w2))"
    using w2(2) net2 k1(2) by simp_all
  have "send_frame L V R c ref (Some k) singleStreamMode fr w = Done (None, w2)"
    using p w2(1) by (simp add: send_frame_def mode_defs w1_def [symmetric])
  then show ?case
    using Cons.IH [OF r2 k2(1) w2(3) k2(2) w2(6)] p w2(4,5) by (auto simp: same_but_streams_def w1_def)
qed

end

lemma loop_other_mode:
  assumes "sendMode \<noteq> datagramMode" and "sendMode \<noteq> streamPerFrameMode" and "sendMode \<noteq> singleStreamMode"
  shows "\<exists>z. send_loop L V R c ref single sendMode (map Inr frames @ Inl io_EOF # reads) w
      = Done (Some None, w\<lparr>snd_packetizer := z\<rparr>)"
proof (induction frames arbitrary: w)
  case Nil
  then show ?case by (intro exI [of _ "snd_packetizer w"]) simp
next
  case (Cons fr frames)
  obtain pkts z where "Packetize R fr 1 (snd_packetizer w) = (pkts, z)"
    by (cases "Packetize R fr 1 (snd_packetizer w)")
  then show ?case
    using Cons.IH [of "w\<lparr>snd_packetizer := z\<rparr>"] assms by (simp add: send_frame_def)
qed

context quicvarint
begin

lemma NewSendFlow_ready:
  assumes "fits62 i" and "s_closedErr (snd_session w) = None" and "sm_get (s_sendFlows (snd_session w)) i = None"
  obtains ref s where "NewSendFlow V (snd_session w) i = Done (Inr ref, s)"
    "flow_ready V i ref net (w\<lparr>snd_session := s\<rparr>)"
proof -
  let ?s = "snd_session w"
  obtain f where f: "newFlow V i (s_qlog ?s) (Some (s_logger ?s)) = Done f"
    using newFlow_ok [OF assms(1)] by simp
  obtain ref store where al: "ss_alloc f (s_sstore ?s) = (ref, store)"
    by (cases "ss_alloc f (s_sstore ?s)")
  let ?s' = "?s\<lparr>s_sendFlows := sm_set i ref (s_sendFlows ?s), s_sstore := store\<rparr>"
  have "NewSendFlow V ?s i = Done (Inr ref, ?s')"
    using assms(2,3) f al by (simp add: NewSendFlow_def NewSendFlow_insert_def isClosed_def sm.add_absent)
  moreover have "flow_ready V i ref net (w\<lparr>snd_session := ?s'\<rparr>)"
    using newFlow_Done [OF f] al by (auto simp: flow_ready_def ss_alloc_def)
  ultimately show thesis
    by (rule that)
qed

lemma reliable_loop_plain:
  assumes "quic_reliable L c net dgrams" and "rtp_ok R" and "flow_ready V i ref net w"
    and "pss = packetised R 1 frames (snd_packetizer w)" and "sendMode \<noteq> singleStreamMode"
  obtains w1 w2 where
    "send_loop L V R c ref None sendMode (map Inr frames @ Inl io_EOF # reads) w = Done (Some None, w1)"
    "flow_close L ref w1 = Done w2"
    "dgrams (snd_quic w2) = dgrams (snd_quic w) @
       (if sendMode = datagramMode then map (\<lambda>p. vi_enc V i @ p) (concat pss) else [])"
    "map snd (net (snd_quic w2)) = map snd (net (snd_quic w)) @
       (if sendMode = streamPerFrameMode then map (stream_bytes V i) pss else [])"
proof -
  obtain w1 where w1: "send_loop L V R c ref None sendMode (map Inr frames @ Inl io_EOF # reads) w = Done (Some None, w1)"
    "flow_ready V i ref net w1"
    "dgrams (snd_quic w1) = dgrams (snd_quic w) @
      (if sendMode = datagramMode then map (\<lambda>p. vi_enc V i @ p) (concat pss) else [])"
    "map snd (net (snd_quic w1)) = map snd (net (snd_quic w)) @
      (if sendMode = streamPerFrameMode then map (stream_bytes V i) pss else [])"
  proof (cases "sendMode = datagramMode \<or> sendMode = streamPerFrameMode")
    case True
    then show thesis
      using reliable_loop_datagrams [OF assms(1-3), of None frames reads]
        reliable_loop_streams [OF assms(1-3), of None frames reads] that
      by (auto simp: mode_defs assms(4))
  next
    case False
    then obtain z where "send_loop L V R c ref None sendMode (map Inr frames @ Inl io_EOF # reads) w
        = Done (Some None, w\<lparr>snd_packetizer := z\<rparr>)"
      using loop_other_mode [of sendMode L V R c ref None frames reads w] assms(5) by blast
    moreover have "flow_ready V i ref net (w\<lparr>snd_packetizer := z\<rparr>)"
      by (rule flow_ready_same [OF assms(3)]) simp_all
    ultimately show thesis
      using False by (intro that [of "w\<lparr>snd_packetizer := z\<rparr>"]) (auto simp: mode_defs)
  qed
  obtain w2 where "flow_close L ref w1 = Done w2" "net (snd_quic w2) = net (snd_quic w1)"
    "dgrams (snd_quic w2) = dgrams (snd_quic w1)"
    by (rule reliable_flow_close [OF assms(1) w1(2)])
  then show thesis
    using w1 by (intro that [of w1 w2]) simp_all
qed

lemma reliable_send_single:
  assumes "quic_reliable L c net dgrams" and "rtp_ok R" and "flow_ready V i ref net w"
  obtains w1 w2 w' k where "flow_NewSendStream L c ref w = Done (Inr k, w1)"
    "send_loop L V R c ref (Some k) singleStreamMode (map Inr frames @ Inl io_EOF # reads) w1 = Done (Some None, w2)"
    "send_deferred L ref (Some k) (Some None, w2) = Done (Some None, w')"
    "dgrams (snd_quic w') = dgrams (snd_quic w)"
    "map snd (net (snd_quic w')) = map snd (net (snd_quic w)) @
       [stream_bytes V i (concat (packetised R 1 frames (snd_packetizer w)))]"
proof -
  obtain w1 st h where w1: "flow_NewSendStream L c ref w = Done (Inr (snd_next w), w1)"
    "snd_streams w1 (snd_next w) = Some (st, h)" "wrote V i [] st" "qgs_stream h \<notin> fst ` set (net (snd_quic w))"
    "net (snd_quic w1) = net (snd_quic w) @ [(qgs_stream h, [])]" "dgrams (snd_quic w1) = dgrams (snd_quic w)"
    "flow_ready V i ref net w1" "snd_packetizer w1 = snd_packetizer w"
    by (rule reliable_open [OF assms(1,3)]) (rule that)
  have "qgs_stream h \<in> fst ` set (net (snd_quic w1))"
    "net (snd_quic w1) = append_to (qgs_stream h) (stream_bytes V i []) (net (snd_quic w1))"
    using w1(5) by (simp_all add: stream_bytes_def)
  then obtain w2 st' where w2: "send_loop L V R c ref (Some (snd_next w)) singleStreamMode
      (map Inr frames @ Inl io_EOF # reads) w1 = Done (Some None, w2)"
    "flow_ready V i ref net w2" "dgrams (snd_quic w2) = dgrams (snd_quic w1)"
    "snd_streams w2 (snd_next w) = Some (st', h)"
    "net (snd_quic w2) = append_to (qgs_stream h)
      (stream_bytes V i ([] @ concat (packetised R 1 frames (snd_packetizer w1)))) (net (snd_quic w1))"
    using reliable_loop_single [OF assms(1,2) w1(7,2,3)] by blast
  obtain w3 where w3: "flow_close L ref w2 = Done w3" "net (snd_quic w3) = net (snd_quic w2)"
    "dgrams (snd_quic w3) = dgrams (snd_quic w2)" "snd_streams w3 = snd_streams w2"
    by (rule reliable_flow_close [OF assms(1) w2(2)])
  have "snd_streams w3 (snd_next w) = Some (st', h)" "qgs_stream h \<in> fst ` set (net (snd_quic w3))"
    using w2(4,5) w3(2,4) w1(5) by simp_all
  then obtain q' where q': "stream_close L (snd_next w) w3 = Done (None, w3\<lparr>snd_quic := q'\<rparr>)"
    "net q' = net (snd_quic w3)" "dgrams q' = dgrams (snd_quic w3)"
    by (rule reliable_stream_close [OF assms(1)])
  show thesis
    using w1(1,6,8) w2(1,3,5) w3(1-3) q' append_to_new [OF w1(4)] w1(5)
    by (intro that [of "snd_next w" w1 w2 "w3\<lparr>snd_quic := q'\<rparr>"]) (simp_all add: send_deferred_def)
qed

end

text \<open>What the sender puts on the connection. On a connection that works, \<open>send\<close> returns nil at the end
  of the frames, after sending exactly the packets of the frames, in order: in datagram mode each as
  a datagram behind the flow ID; with a stream per frame, the flow ID and the frame's packets on a new
  stream each; in single stream mode, the flow ID once and all packets on one stream. A mode beyond
  these three, which the command line allows, reads all frames and sends nothing.\<close>

lemma send_reliable:
  assumes "quicvarint V" and "quic_reliable L c net dgrams" and "rtp_ok R" and "fits62 i"
    and "s_closedErr (snd_session w) = None" and "sm_get (s_sendFlows (snd_session w)) i = None"
    and "pss = packetised R 1 frames (snd_packetizer w)"
  shows "\<exists>w'. send L V R c i (map Inr frames @ Inl io_EOF # reads) sendMode w = Done (Some None, w') \<and>
    dgrams (snd_quic w') = dgrams (snd_quic w) @
      (if sendMode = datagramMode then map (\<lambda>p. vi_enc V i @ p) (concat pss) else []) \<and>
    map snd (net (snd_quic w')) = map snd (net (snd_quic w)) @
      (if sendMode = streamPerFrameMode then map (stream_bytes V i) pss
       else if sendMode = singleStreamMode then [stream_bytes V i (concat pss)] else [])"
proof -
  let ?reads = "map Inr frames @ Inl io_EOF # reads"
  obtain ref s where new: "NewSendFlow V (snd_session w) i = Done (Inr ref, s)"
    and ready: "flow_ready V i ref net (w\<lparr>snd_session := s\<rparr>)"
    by (rule quicvarint.NewSendFlow_ready [OF assms(1,4-6)])
  let ?w = "w\<lparr>snd_session := s\<rparr>"
  show ?thesis
  proof (cases "sendMode = singleStreamMode")
    case True
    obtain w1 w2 w' k where "flow_NewSendStream L c ref ?w = Done (Inr k, w1)"
      "send_loop L V R c ref (Some k) singleStreamMode ?reads w1 = Done (Some None, w2)"
      "send_deferred L ref (Some k) (Some None, w2) = Done (Some None, w')"
      "dgrams (snd_quic w') = dgrams (snd_quic ?w)"
      "map snd (net (snd_quic w')) = map snd (net (snd_quic ?w)) @
         [stream_bytes V i (concat (packetised R 1 frames (snd_packetizer ?w)))]"
      by (rule quicvarint.reliable_send_single [OF assms(1-3) ready]) (rule that)
    then show ?thesis
      using True new by (simp add: send_def mode_defs assms(7))
  next
    case False
    have pss: "pss = packetised R 1 frames (snd_packetizer ?w)"
      using assms(7) by simp
    obtain w1 w2 where "send_loop L V R c ref None sendMode ?reads ?w = Done (Some None, w1)"
      "flow_close L ref w1 = Done w2"
      "dgrams (snd_quic w2) = dgrams (snd_quic ?w) @
         (if sendMode = datagramMode then map (\<lambda>p. vi_enc V i @ p) (concat pss) else [])"
      "map snd (net (snd_quic w2)) = map snd (net (snd_quic ?w)) @
         (if sendMode = streamPerFrameMode then map (stream_bytes V i) pss else [])"
      by (rule quicvarint.reliable_loop_plain [OF assms(1-3) ready pss False]) (rule that)
    then show ?thesis
      using False new by (simp add: send_def send_deferred_def)
  qed
qed

text \<open>
  A sender that cannot open its single stream returns the error before it has deferred the closing of
  the flow: the flow stays registered and open, and sending again on the same session fails with
  \<open>errDuplicateFlowID\<close>.
\<close>

lemma open_error_leaves_flow:
  assumes "quicvarint V" and "fits62 i" and "s_closedErr (snd_session w) = None"
    and "sm_get (s_sendFlows (snd_session w)) i = None"
    and "Conn_OpenUniStreamSync L (qgc_conn c) False (snd_quic w) = (Inl e, q')"
  shows "\<exists>w'. send L V R c i reads singleStreamMode w = Done (Some (Some e), w') \<and>
    sm_get (s_sendFlows (snd_session w')) i \<noteq> None \<and>
    send L V R c i reads' mode' w' = Done (Some (Some errDuplicateFlowID), w')"
proof -
  let ?s = "snd_session w"
  obtain f where f: "newFlow V i (s_qlog ?s) (Some (s_logger ?s)) = Done f" "sf_closedErr f = None"
    using quicvarint.newFlow_ok [OF assms(1,2)] by simp
  obtain ref store where al: "ss_alloc f (s_sstore ?s) = (ref, store)"
    by (cases "ss_alloc f (s_sstore ?s)")
  let ?s' = "?s\<lparr>s_sendFlows := sm_set i ref (s_sendFlows ?s), s_sstore := store\<rparr>"
  let ?w' = "w\<lparr>snd_session := ?s', snd_quic := q'\<rparr>"
  have new: "NewSendFlow V ?s i = Done (Inr ref, ?s')" and st: "ss_flow store ref = Some f"
    using assms(3,4) f(1) al
    by (auto simp: NewSendFlow_def NewSendFlow_insert_def isClosed_def sm.add_absent ss_alloc_def)
  have "send L V R c i reads singleStreamMode w = Done (Some (Some e), ?w')"
    using new st f(2) assms(5)
    by (simp add: send_def flow_NewSendStream_def sf_isClosed_def QUICGoConnection_OpenUniStreamSync_def)
  moreover have "NewSendFlow V ?s' i = Done (Inl errDuplicateFlowID, ?s')"
    using assms(3) f(1) by (simp add: NewSendFlow_def NewSendFlow_insert_def isClosed_def sm_get_update
        getOrInsert_def ss_alloc_def)
  ultimately show ?thesis
    by (intro exI [of _ ?w']) (simp add: send_def sm_get_update)
qed

text \<open>
  A connection in memory that keeps the contract, for concrete instances: it numbers its streams and
  stores what is sent; and a packetizer that sends each frame as one packet.
\<close>

definition memory_quic :: "((int \<times> byte list) list \<times> byte list list, unit, int) quic_go" where
  "memory_quic =
     \<lparr>Stream_StreamID = (\<lambda>s. s), Stream_CancelRead = (\<lambda>s c q. q),
      Stream_Read = (\<lambda>s n q. (([], Some io_EOF), q)),
      Stream_Write = (\<lambda>s b q. ((int (length b), None), (append_to s b (fst q), snd q))),
      Stream_Close = (\<lambda>s q. (None, q)), Stream_CancelWrite = (\<lambda>s c q. q),
      Conn_SendDatagram = (\<lambda>c b q. (None, (fst q, snd q @ [b]))),
      Conn_ReceiveDatagram = (\<lambda>c ctx q. (Inl io_EOF, q)),
      Conn_OpenUniStreamSync = (\<lambda>c ctx q. let h = 1 + (\<Sum>x \<leftarrow> fst q. \<bar>fst x\<bar>) in (Inr h, (fst q @ [(h, [])], snd q))),
      Conn_AcceptUniStream = (\<lambda>c ctx q. (Inl io_EOF, q)), Conn_QlogTrace = (\<lambda>c q. None),
      Conn_CloseWithError = (\<lambda>c code why q. (None, q))\<rparr>"

definition whole_frames :: "(unit, byte list) rtp" where
  "whole_frames = \<lparr>Packetize = (\<lambda>fr n z. ([fr], z)), Marshal = (\<lambda>p. Inr (take 1200 p))\<rparr>"

lemma whole_frames_sel [simp]:
  "Packetize whole_frames fr n z = ([fr], z)" "payload whole_frames p = take 1200 p"
  by (simp_all add: whole_frames_def payload_def)

lemma fresh_number: "(1 :: int) + (\<Sum>x \<leftarrow> xs. \<bar>f x\<bar>) \<notin> f ` set xs"
proof -
  have "y \<le> (\<Sum>x \<leftarrow> xs. \<bar>f x\<bar>)" if "y \<in> f ` set xs" for y
    using that member_le_sum_list [of "\<bar>y\<bar>" "map (\<lambda>x. \<bar>f x\<bar>) xs"] by fastforce
  then show ?thesis
    by force
qed

lemma memory_quic_reliable: "quic_reliable memory_quic c fst snd"
  by (simp add: quic_reliable_def memory_quic_def Let_def) (use fresh_number in blast)

end
