(* ===== verification/Read_Turns.thy ===== *)
theory Read_Turns
  imports Interop_Sender
begin

text \<open>
  A program that reads a receive flow in a loop, beside the session's own goroutines: a schedule says
  when one of these handles a datagram, a stream or the end of the connection, and when the loop goes
  on. The example programs' loops are instances. Shown: how such a loop ends, and that it sees every
  packet of its flow once and in order.
\<close>

section \<open>A loop over \<open>Read\<close>\<close>

text \<open>
  A turn of a schedule is a call of one of the session's goroutines, or a turn of the reading goroutine:
  it calls \<open>Read\<close>, and waits on if \<open>Read\<close> does. The body of the loop gets what \<open>Read\<close> returned and the
  program's own state; it gives a result to leave the loop with, or none to go on, or it panics. The
  result of the loop is \<open>None\<close> while it runs.
\<close>

type_synonym turn = "(outside \<times> session_op) option"

fun read_turns ::
  "varint_lib \<Rightarrow> nat \<Rightarrow> (read_result \<Rightarrow> 'x \<Rightarrow> ('res option \<times> 'x) outcome) \<Rightarrow> nat \<Rightarrow> turn list \<Rightarrow>
     Session \<Rightarrow> 'x \<Rightarrow> ('res option \<times> Session \<times> 'x) outcome" where
  "read_turns V blen body r [] s x = Done (None, s, x)"
| "read_turns V blen body r (Some (w, op) # turns) s x =
     bind_outcome (run_op V w op s) (\<lambda>(s', _). read_turns V blen body r turns s' x)"
| "read_turns V blen body r (None # turns) s x =
     (case st_flow (s_rstore s) r of
        None \<Rightarrow> Panic ''nil pointer dereference''
      | Some f \<Rightarrow>
          (case Read blen f of
             None \<Rightarrow> read_turns V blen body r turns s x
           | Some (res, f') \<Rightarrow>
               bind_outcome (body res x) (\<lambda>(stop, x').
                 if stop \<noteq> None then Done (stop, with_flow r f' s, x')
                 else read_turns V blen body r turns (with_flow r f' s) x')))"

section \<open>What the session does meanwhile\<close>

text \<open>The calls of the session's goroutines: datagrams, streams, and closing.\<close>

fun background :: "session_op \<Rightarrow> bool" where
  "background (OpDatagram d) = True"
| "background (OpStream rs) = True"
| "background OpClose = True"
| "background _ = False"

fun_cases background_cases: "background op"

lemma background_op_ok: "background op \<Longrightarrow> op_ok s op"
  by (cases op) simp_all

definition turns_ok :: "turn list \<Rightarrow> bool" where
  "turns_ok turns \<longleftrightarrow> (\<forall>t \<in> set turns. case t of None \<Rightarrow> True | Some (w, op) \<Rightarrow> background op)"

lemma turns_ok_simps [simp]:
  "turns_ok []" "turns_ok (None # turns) = turns_ok turns"
  "turns_ok (Some (w, op) # turns) \<longleftrightarrow> background op \<and> turns_ok turns"
  by (auto simp: turns_ok_def)

lemma turns_ok_tl: "turns_ok (t # turns) \<Longrightarrow> turns_ok turns"
  by (simp add: turns_ok_def)

lemma registered_flow:
  assumes "session_ok s" and "sm_get (s_receiveFlows s) i = Some r"
  obtains f where "st_flow (s_rstore s) r = Some f" and "rf_ok [] f" and "rf_id f = i"
proof -
  have "names (s_rstore s) i r" and st: "store_ok (s_rstore s)"
    using assms by (simp_all add: session_ok_def recv_ok_def)
  then obtain f where "st_flow (s_rstore s) r = Some f" "rf_id f = i"
    by (auto simp: names_def)
  then show thesis
    using st by (intro that) (auto simp: store_ok_def)
qed

lemma found_receiveFlows: "found s i r s' \<Longrightarrow> s_receiveFlows s' = s_receiveFlows s"
  unfolding found_def by (elim conjE) (erule ssubst, simp)

lemma s_close_registered:
  "session_ok s \<Longrightarrow> s_close deref cr s c why = Done (s', es) \<Longrightarrow> s_receiveFlows s' = s_receiveFlows s"
  using s_close_eq [of s deref cr c why] s_close_again [of s deref cr c why]
  by (cases "s_closedErr s") (auto simp: shut_def)

lemma Session_Close_registered:
  assumes "session_ok s" and "Session_Close deref cr s = Done (e, s', es)"
  shows "s_receiveFlows s' = s_receiveFlows s"
  using assms s_close_registered [OF assms(1)]
  by (auto simp: Session_Close_def Close_finish_def bind_outcome_Done_iff split: option.splits if_splits)

context quicvarint
begin

lemma handleUniStream_registered:
  assumes "session_ok s" and "handleUniStream V pick s rs = Done (s', es)"
  shows "s_receiveFlows s' = s_receiveFlows s"
proof (cases "vi_Read V rs")
  case (Pair res rs1)
  show ?thesis
  proof (cases res)
    case (Inl e)
    then show ?thesis
      using assms Pair by (simp add: handleUniStream_def)
  next
    case (Inr i)
    obtain r s1 es1 f f' rs' es2 where
      "found s i r s1" "HandleUniStreamWithFlowID V pick s i rs1 = Done (with_flow r f' s1,
         qlog_if (s_qlog s) (\<lambda>q. StreamOpened i (word_of_int (rs_ID rs1))) @ es1 @ es2)"
      by (rule HandleUniStreamWithFlowID_found [OF assms(1), of i pick rs1]) (rule that)
    then show ?thesis
      using assms Pair Inr by (auto simp: handleUniStream_def found_receiveFlows)
  qed
qed

lemma HandleDatagram_registered_same:
  assumes "session_ok s" and "HandleDatagram V pick deref cr s d = Done (s', es)"
  shows "s_receiveFlows s' = s_receiveFlows s"
proof (cases "vi_Parse V d")
  case (Inl e)
  then show ?thesis
    using assms(2) s_close_registered [OF assms(1)] by (simp add: HandleDatagram_malformed)
next
  case (Inr x)
  obtain i n where p: "vi_Parse V d = Inr (i, n)"
    using Inr by (cases x) auto
  obtain r s1 es1 f f' where "found s i r s1" "HandleDatagram V pick deref cr s d = Done (with_flow r f' s1,
       qlog_if (s_qlog s) (\<lambda>q. DatagramPacketParsed (wire_packet q i d (word_of_nat (length d - n)))) @ es1)"
    by (rule HandleDatagram_parsed [OF assms(1) p, of pick deref cr]) (rule that)
  then show ?thesis
    using assms(2) by (auto simp: found_receiveFlows)
qed

lemma background_ok:
  assumes "session_ok s" and "background op"
  shows "\<exists>s' es. run_op V w op s = Done (s', es) \<and> session_ok s' \<and> s_receiveFlows s' = s_receiveFlows s"
proof -
  obtain s' es where run: "run_op V w op s = Done (s', es)" "session_ok s'"
    using run_op_ok [OF assms(1) background_op_ok [OF assms(2)]] by blast
  moreover have "s_receiveFlows s' = s_receiveFlows s"
    using assms run(1) HandleDatagram_registered_same handleUniStream_registered Session_Close_registered
    by (auto simp: run_op_def bind_outcome_Done_iff elim!: background_cases)
  ultimately show ?thesis
    by blast
qed

end

section \<open>How a loop ends\<close>

text \<open>\<open>Read\<close> never reports \<open>io.EOF\<close>: a closed flow gives the error of its context.\<close>

lemma Read_no_EOF:
  assumes "rf_ok [] f" and "Read n f = Some ((nr, er, buf), f')"
  shows "er \<noteq> Some io_EOF" and "rf_ok [] f'" and "rf_id f' = rf_id f" and "rf_closed f' = rf_closed f"
    and "0 < nr \<Longrightarrow> er = None"
proof -
  show "er \<noteq> Some io_EOF" "0 < nr \<Longrightarrow> er = None"
    using assms(2)
    by (auto simp: Read_def Read_begin_def Read_packet_def copyPacket_def ctx_Err_def Let_def
        split: if_splits received.splits prod.splits)
qed (use Read_ok [OF assms] in simp_all)

context quicvarint
begin

text \<open>The loop keeps the session well-formed, and leaves by a result of its body for a result of \<open>Read\<close>.\<close>

lemma read_turns_result:
  assumes "session_ok s" and "turns_ok turns" and "sm_get (s_receiveFlows s) i = Some r"
    and "\<And>f res f' x. rf_ok [] f \<Longrightarrow> Read blen f = Some (res, f') \<Longrightarrow>
      \<exists>stop x'. body res x = Done (stop, x') \<and> (case stop of None \<Rightarrow> True | Some e \<Rightarrow> P e)"
  shows "\<exists>res s' x'. read_turns V blen body r turns s x = Done (res, s', x') \<and>
    (case res of None \<Rightarrow> True | Some e \<Rightarrow> P e) \<and> session_ok s' \<and> sm_get (s_receiveFlows s') i = Some r"
  using assms(1-3)
proof (induction turns arbitrary: s x)
  case Nil
  then show ?case by simp
next
  case (Cons t turns)
  have turns: "turns_ok turns"
    using Cons.prems(2) by (rule turns_ok_tl)
  show ?case
  proof (cases t)
    case (Some y)
    obtain w op where y: "y = (w, op)"
      by (cases y)
    then obtain s1 es where s1: "run_op V w op s = Done (s1, es)" "session_ok s1"
      "s_receiveFlows s1 = s_receiveFlows s"
      using background_ok [OF Cons.prems(1), of op w] Cons.prems(2) Some by auto
    then show ?thesis
      using Cons.IH [OF s1(2) turns] Cons.prems(3) Some y by simp
  next
    case None
    obtain f where f: "st_flow (s_rstore s) r = Some f" "rf_ok [] f"
      using registered_flow [OF Cons.prems(1,3)] by blast
    show ?thesis
    proof (cases "Read blen f")
      case blocked: None
      then show ?thesis
        using Cons.IH [OF Cons.prems(1) turns Cons.prems(3)] f None by simp
    next
      case (Some z)
      obtain res f' where z: "Read blen f = Some (res, f')"
        using Some by (cases z) auto
      have ok: "session_ok (with_flow r f' s)"
        using session_ok_put [OF Cons.prems(1) f(1)] Receive_Deadline.Read_ok [OF f(2) z] by simp
      obtain stop x' where "body res x = Done (stop, x')" "case stop of None \<Rightarrow> True | Some e \<Rightarrow> P e"
        using assms(4) [OF f(2) z, of x] by blast
      then show ?thesis
        using Cons.IH [OF ok turns, of x'] Cons.prems(3) ok f(1) z None by (cases stop) auto
    qed
  qed
qed

end

section \<open>What a loop sees\<close>

text \<open>The packets of flow \<open>i\<close> that a datagram or a stream carries, and those of a schedule.\<close>

inductive carries :: "varint_lib \<Rightarrow> u64 \<Rightarrow> session_op \<Rightarrow> byte list list \<Rightarrow> bool" for V i where
  datagram: "carries V i (OpDatagram (vi_enc V i @ p)) [p]"
| stream: "rs_data rs = stream_bytes V i ps \<Longrightarrow> \<forall>p \<in> set ps. packet_ok p \<Longrightarrow> carries V i (OpStream rs) ps"

inductive arrives :: "varint_lib \<Rightarrow> u64 \<Rightarrow> turn list \<Rightarrow> byte list list \<Rightarrow> bool" for V i where
  none: "arrives V i [] []"
| copy: "arrives V i turns ps \<Longrightarrow> arrives V i (None # turns) ps"
| call: "carries V i op qs \<Longrightarrow> arrives V i turns ps \<Longrightarrow> arrives V i (Some (w, op) # turns) (qs @ ps)"

inductive_simps carries_simps: "carries V i (OpDatagram d) ps" "carries V i (OpStream rs) ps"

text \<open>A flow that nobody closes or sets deadlines on.\<close>

definition undisturbed :: "ReceiveFlow \<Rightarrow> bool" where
  "undisturbed f \<longleftrightarrow> rf_idle f \<and> \<not> rf_closed f \<and> \<not> rf_ctxDone f \<and> rf_streams f = []"

lemma undisturbed_same:
  assumes "undisturbed f" and "same_but_buffers f f'" and "rf_ok [] f'"
  shows "undisturbed f'"
  using assms by (simp add: undisturbed_def rf_idle_def same_but_buffers_def)

lemma undisturbed_new: "newReceiveFlow i n q lg = Done f \<Longrightarrow> undisturbed f"
  using rf_ok_new [of i n q lg f] by (simp add: undisturbed_def rf_idle_def rf_new_fields)

lemma with_flow_same: "st_flow (s_rstore s) r = Some f \<Longrightarrow> with_flow r f s = s"
  by (simp add: st_put_def fun_upd_idem)

context quicvarint
begin

lemma carries_queues:
  assumes "carries V i op ps" and "fits62 i" and "session_ok s"
    and "sm_get (s_receiveFlows s) i = Some r" and "st_flow (s_rstore s) r = Some f" and "undisturbed f"
  shows "\<exists>f' es. run_op V w op s = Done (with_flow r f' s, es) \<and> queues f ps f' \<and> session_ok (with_flow r f' s)"
  using assms(1)
proof cases
  case (datagram p)
  obtain f' es where "HandleDatagram V (out_pick w) (out_deref w) (out_close w) s (vi_enc V i @ p)
      = Done (with_flow r f' s, es)" "queues f [drop (length (vi_enc V i)) (vi_enc V i @ p)] f'"
    "session_ok (with_flow r f' s)"
    by (rule HandleDatagram_registered [OF quicvarint_axioms assms(3) Parse_enc [OF assms(2)] assms(4,5)])
      (rule that)
  then show ?thesis
    using datagram by (intro exI [of _ f']) (simp add: run_op_def)
next
  case (stream rs)
  have ok: "rf_ok [] f"
    using assms(6) by (simp add: undisturbed_def rf_idle_def)
  show ?thesis
  proof (cases "ps = []")
    case True
    obtain e where "vi_Parse V (rs_data rs) = Inl e"
      using Parse_incomplete [of "rs_data rs"] stream True by (auto simp: stream_bytes_def varint_complete_def)
    then obtain e' rs1 where "vi_Read V rs = (Inl e', rs1)"
      using Read_fail by blast
    then show ?thesis
      using stream True queues_Nil [OF ok] assms(3,5)
      by (intro exI [of _ f]) (simp add: run_op_def handleUniStream_def with_flow_same)
  next
    case False
    define rs1 where "rs1 = rs\<lparr>rs_data := concat (map (frame V) ps)\<rparr>"
    have data: "rs_data rs = vi_enc V i @ concat (map (frame V) ps)"
      using stream False by (simp add: stream_bytes_def)
    obtain r' s1 es1 f1 f' rs' es2 where h:
      "receiveFlow s i = Done (r', s1, es1)" "st_flow (s_rstore s1) r' = Some f1"
      "readStream V (out_pick w) f1 rs1 = Done (f', rs', es2)"
      "HandleUniStreamWithFlowID V (out_pick w) s i rs1 = Done (with_flow r' f' s1,
         qlog_if (s_qlog s) (\<lambda>q. StreamOpened i (word_of_int (rs_ID rs1))) @ es1 @ es2)"
      "session_ok (with_flow r' f' s1)"
      by (rule HandleUniStreamWithFlowID_found [OF assms(3), of i "out_pick w" rs1]) (rule that)
    have "r' = r" "s1 = s" "f1 = f"
      using receiveFlow_known(1) [OF session_okD(1) [OF assms(3)], of i r] assms(4,5) h(1,2) by auto
    moreover have "queues f ps f'"
      using readStream_packets [OF ok, of rs1 "out_pick w"] h(3) calculation assms(6) stream
        stream_packets_frames by (auto simp: undisturbed_def rs1_def)
    ultimately show ?thesis
      using h(4,5) handleUniStream_enc [OF assms(2) data, of "out_pick w" s] stream
      by (intro exI [of _ f']) (simp add: run_op_def rs1_def)
  qed
qed

end

text \<open>
  A body that takes every packet that fits the buffer and goes on; \<open>out\<close> is what it has put out so far,
  and \<open>view\<close> what it makes of a packet.
\<close>

definition consumes ::
  "nat \<Rightarrow> (byte list \<Rightarrow> bool) \<Rightarrow> (read_result \<Rightarrow> 'x \<Rightarrow> ('res option \<times> 'x) outcome) \<Rightarrow> ('x \<Rightarrow> 'v list) \<Rightarrow>
     (byte list \<Rightarrow> 'v list) \<Rightarrow> bool" where
  "consumes blen good body out view \<longleftrightarrow>
     (\<forall>p x. length p \<le> blen \<longrightarrow> good p \<longrightarrow>
        (\<exists>x'. body (int (length p), None, p) x = Done (None, x') \<and> out x' = out x @ view p))"

context quicvarint
begin

text \<open>A turn of the loop, on an empty and on a filled queue.\<close>

lemma read_turns_wait:
  assumes "st_flow (s_rstore s) r = Some f" and "undisturbed f" and "rf_packets f = []"
  shows "read_turns V blen body r (None # turns) s x = read_turns V blen body r turns s x"
  using assms Read_empty [of f blen] by (simp add: undisturbed_def)

lemma read_turns_turn:
  assumes "consumes blen good body out view" and "session_ok s" and "st_flow (s_rstore s) r = Some f"
    and "undisturbed f" and "rf_packets f = p # qs" and "length p \<le> blen" and "good p"
  obtains f' x' where
    "\<And>turns. read_turns V blen body r (None # turns) s x = read_turns V blen body r turns (with_flow r f' s) x'"
    and "undisturbed f'" and "session_ok (with_flow r f' s)" and "rf_packets f' = qs" and "rf_cap f' = rf_cap f"
    and "out x' = out x @ view p"
proof -
  obtain f' where f': "Read blen f = Some ((int (length p), None, p), f')" "rf_idle f'"
    "rf_packets f' = qs" "rf_cap f' = rf_cap f" "same_but_buffers f f'"
    using Read_queued [OF _ assms(5), of blen] assms(4,6) by (auto simp: undisturbed_def)
  have u: "undisturbed f'" and ok: "session_ok (with_flow r f' s)"
    using undisturbed_same [OF assms(4) f'(5)] f'(2,5)
      session_ok_put [OF assms(2,3), of f'] by (simp_all add: rf_idle_def same_but_buffers_def)
  obtain x' where x': "body (int (length p), None, p) x = Done (None, x')" "out x' = out x @ view p"
    using assms(1,6,7) unfolding consumes_def by blast
  have "read_turns V blen body r (None # turns) s x = read_turns V blen body r turns (with_flow r f' s) x'" for turns
    using f'(1) assms(3) x'(1) by simp
  then show thesis
    using u ok f'(3,4) x'(2) by (rule that)
qed

text \<open>
  Nothing is lost, duplicated or reordered: at every moment of every schedule what was put out,
  followed by what the queued packets give, is what the packets that have arrived give.
\<close>

lemma read_turns_in_order:
  assumes "arrives V i turns ps" and "fits62 i" and "consumes blen good body out view" and "session_ok s"
    and "sm_get (s_receiveFlows s) i = Some r" and "st_flow (s_rstore s) r = Some f" and "undisturbed f"
    and "length (rf_packets f) + length ps \<le> rf_cap f"
    and "\<forall>p \<in> set (rf_packets f @ ps). length p \<le> blen \<and> good p"
  shows "\<exists>s' x' f'. (\<forall>more. read_turns V blen body r (turns @ more) s x = read_turns V blen body r more s' x') \<and>
    session_ok s' \<and> sm_get (s_receiveFlows s') i = Some r \<and> st_flow (s_rstore s') r = Some f' \<and> undisturbed f' \<and>
    out x' @ concat (map view (rf_packets f')) = out x @ concat (map view (rf_packets f @ ps)) \<and>
    length (rf_packets f') \<le> length (rf_packets f) + length ps \<and>
    (\<forall>p \<in> set (rf_packets f'). length p \<le> blen \<and> good p)"
  using assms
proof (induction arbitrary: s x f rule: arrives.induct)
  case none
  then show ?case by auto
next
  case (copy turns ps)
  show ?case
  proof (cases "rf_packets f")
    case Nil
    then show ?thesis
      using copy.IH [OF copy.prems, of x] by (simp add: read_turns_wait [OF copy.prems(5,6) Nil] del: read_turns.simps)
  next
    case (Cons p qs)
    then have "length p \<le> blen" "good p"
      using copy.prems(8) by simp_all
    then obtain f' x' where f':
      "\<And>turns. read_turns V blen body r (None # turns) s x = read_turns V blen body r turns (with_flow r f' s) x'"
      "undisturbed f'" "session_ok (with_flow r f' s)" "rf_packets f' = qs" "rf_cap f' = rf_cap f"
      "out x' = out x @ view p"
      by (rule read_turns_turn [OF copy.prems(2,3,5,6) Cons]) (rule that)
    have "\<exists>s'' x'' f''.
        (\<forall>more. read_turns V blen body r (turns @ more) (with_flow r f' s) x' = read_turns V blen body r more s'' x'') \<and>
        session_ok s'' \<and> sm_get (s_receiveFlows s'') i = Some r \<and> st_flow (s_rstore s'') r = Some f'' \<and>
        undisturbed f'' \<and>
        out x'' @ concat (map view (rf_packets f'')) = out x' @ concat (map view (rf_packets f' @ ps)) \<and>
        length (rf_packets f'') \<le> length (rf_packets f') + length ps \<and>
        (\<forall>p \<in> set (rf_packets f''). length p \<le> blen \<and> good p)"
      using copy.prems f'(2-5) Cons by (intro copy.IH) (simp_all add: st_put_def)
    then show ?thesis
      using f'(4,6) Cons unfolding append_Cons f'(1) by (elim ex_forward conjE) auto
  qed
next
  case (call op qs turns ps w)
  obtain f' es where f': "run_op V w op s = Done (with_flow r f' s, es)" "queues f qs f'"
    "session_ok (with_flow r f' s)"
    using carries_queues [OF call.hyps(1) call.prems(1,3-6)] by blast
  have u: "undisturbed f'" and cap: "rf_cap f' = rf_cap f"
    using undisturbed_same [OF call.prems(6)] f'(2) by (simp_all add: queues_def)
  have packets: "rf_packets f' = rf_packets f @ qs"
    using f'(2) call.prems(6,7) by (simp add: queues_def undisturbed_def)
  show ?case
    using call.IH [OF call.prems(1,2) f'(3) _ _ u, of x] call.prems(4,7,8) f'(1) packets cap
    by (simp add: st_put_def add.assoc)
qed

lemma read_turns_drain:
  assumes "consumes blen good body out view" and "session_ok s" and "st_flow (s_rstore s) r = Some f"
    and "undisturbed f" and "\<forall>p \<in> set (rf_packets f). length p \<le> blen \<and> good p" and "length (rf_packets f) \<le> n"
  shows "\<exists>s' x'. read_turns V blen body r (replicate n None) s x = Done (None, s', x') \<and>
    out x' = out x @ concat (map view (rf_packets f))"
  using assms(2-6)
proof (induction n arbitrary: s x f)
  case 0
  then show ?case by simp
next
  case (Suc n)
  show ?case
  proof (cases "rf_packets f")
    case Nil
    then show ?thesis
      using Suc.IH [OF Suc.prems(1-4), of x] Nil
      by (simp add: read_turns_wait [OF Suc.prems(2,3) Nil] del: read_turns.simps)
  next
    case (Cons p qs)
    then have "length p \<le> blen" "good p"
      using Suc.prems(4) by simp_all
    then obtain f' x' where f':
      "\<And>turns. read_turns V blen body r (None # turns) s x = read_turns V blen body r turns (with_flow r f' s) x'"
      "undisturbed f'" "session_ok (with_flow r f' s)" "rf_packets f' = qs" "out x' = out x @ view p"
      by (rule read_turns_turn [OF assms(1) Suc.prems(1-3) Cons]) (rule that)
    show ?thesis
      using Suc.IH [OF f'(3) _ f'(2), of x'] Suc.prems(4,5) f'(4,5) Cons
      unfolding replicate.simps f'(1) by (auto simp: st_put_def)
  qed
qed

text \<open>Both together, on a flow that the loop's program has just created.\<close>

lemma read_turns_new_flow:
  assumes "fits62 i" and "consumes blen good body out view" and "session_ok s"
    and "s_closedErr s = None" and "sm_get (s_receiveFlows s) i = None"
    and "map_of (rfb_buffer (s_receiveFlowBuffer s)) i = None"
    and "arrives V i turns ps" and "int (length ps) \<le> s_receiveBufferSize s"
    and "\<forall>p \<in> set ps. length p \<le> blen \<and> good p" and "length ps \<le> n"
  shows "\<exists>r s1 s2 x'. NewReceiveFlow s i = Done (Inr r, s1) \<and>
    read_turns V blen body r (turns @ replicate n None) s1 x = Done (None, s2, x') \<and>
    out x' = out x @ concat (map view ps)"
proof -
  obtain r s1 f where new: "NewReceiveFlow s i = Done (Inr r, s1)" "session_ok s1"
    "sm_get (s_receiveFlows s1) i = Some r" "st_flow (s_rstore s1) r = Some f"
    and f: "case map_of (rfb_buffer (s_receiveFlowBuffer s)) i of
        Some b \<Rightarrow> r = b \<and> st_flow (s_rstore s) r = Some f
      | None \<Rightarrow> newReceiveFlow i (s_receiveBufferSize s) (s_qlog s) (Some (s_logger s)) = Done f"
    by (rule NewReceiveFlow_open [OF assms(3-5)]) (rule that)
  have "newReceiveFlow i (s_receiveBufferSize s) (s_qlog s) (Some (s_logger s)) = Done f"
    using f assms(6) by simp
  then have u: "undisturbed f" "rf_packets f = []" "rf_cap f = nat (s_receiveBufferSize s)"
    using undisturbed_new rf_new_fields(1,2) by blast+
  have "\<exists>s' x' f'. (\<forall>more. read_turns V blen body r (turns @ more) s1 x = read_turns V blen body r more s' x') \<and>
    session_ok s' \<and> sm_get (s_receiveFlows s') i = Some r \<and> st_flow (s_rstore s') r = Some f' \<and> undisturbed f' \<and>
    out x' @ concat (map view (rf_packets f')) = out x @ concat (map view (rf_packets f @ ps)) \<and>
    length (rf_packets f') \<le> length (rf_packets f) + length ps \<and>
    (\<forall>p \<in> set (rf_packets f'). length p \<le> blen \<and> good p)"
    using assms(8,9) u(2,3) by (intro read_turns_in_order [OF assms(7,1,2) new(2-4) u(1)]) auto
  then obtain s' x1 f1 where c: "\<And>more. read_turns V blen body r (turns @ more) s1 x = read_turns V blen body r more s' x1"
    "session_ok s'" "st_flow (s_rstore s') r = Some f1" "undisturbed f1"
    "out x1 @ concat (map view (rf_packets f1)) = out x @ concat (map view ps)"
    "length (rf_packets f1) \<le> n" "\<forall>p \<in> set (rf_packets f1). length p \<le> blen \<and> good p"
    using assms(10) u(2) by auto
  obtain s2 x2 where "read_turns V blen body r (replicate n None) s' x1 = Done (None, s2, x2)"
    "out x2 = out x1 @ concat (map view (rf_packets f1))"
    using read_turns_drain [OF assms(2) c(2-4,7,6)] by blast
  then show ?thesis
    using new(1) c(1,5) by simp
qed

end

end
