(* ===== verification/Interop_Receiver.thy ===== *)
theory Interop_Receiver
  imports Read_Turns
begin

text \<open>
  \<open>examples/interop/receiver.go\<close>: a receiver copies the packets of one flow to a writer, by \<open>io.Copy\<close>.
  The copying runs beside the session's own goroutines, as in \<open>Read_Turns\<close>. The writer is an interface
  and a parameter.
\<close>

section \<open>Copying\<close>

record 'x WriteCloser =
  wc_Write :: "byte list \<Rightarrow> 'x \<Rightarrow> write_result \<times> 'x"
  wc_Close :: "'x \<Rightarrow> goerror option \<times> 'x"

definition io_errInvalidWrite :: goerror where
  "io_errInvalidWrite = errors_New ''invalid write result''"

text \<open>The buffer \<open>io.Copy\<close> reads into.\<close>

definition io_Copy_size :: nat where
  "io_Copy_size = 32 * 1024"

text \<open>\<open>io.Copy\<close> writes what it read, and checks the count.\<close>

definition io_Copy_write :: "'x WriteCloser \<Rightarrow> byte list \<Rightarrow> 'x \<Rightarrow> goerror option \<times> 'x" where
  "io_Copy_write D buf x =
     (case wc_Write D buf x of ((nw, ew), x') \<Rightarrow>
        if nw < 0 \<or> int (length buf) < nw
        then (Some (case ew of None \<Rightarrow> io_errInvalidWrite | Some e \<Rightarrow> e), x')
        else if ew \<noteq> None then (ew, x')
        else if int (length buf) \<noteq> nw then (Some io_ErrShortWrite, x')
        else (None, x'))"

text \<open>
  One round of \<open>io.Copy\<close>, behind the reader. The result is the error that \<open>io.Copy\<close> returns, which is nil
  for \<open>io.EOF\<close> from the reader, or \<open>None\<close> to go on.
\<close>

definition io_Copy_round ::
  "'x WriteCloser \<Rightarrow> read_result \<Rightarrow> 'x \<Rightarrow> (goerror option option \<times> 'x) outcome" where
  "io_Copy_round D = (\<lambda>(nr, er, buf) x.
     case (if 0 < nr then io_Copy_write D buf x else (None, x)) of (ew, x') \<Rightarrow>
       Done (if ew \<noteq> None then Some ew
             else (case er of
                     Some e \<Rightarrow> Some (if e = io_EOF then None else Some e)
                   | None \<Rightarrow> None), x'))"

definition io_Copy ::
  "varint_lib \<Rightarrow> 'x WriteCloser \<Rightarrow> nat \<Rightarrow> turn list \<Rightarrow> Session \<Rightarrow> 'x \<Rightarrow>
     (goerror option option \<times> Session \<times> 'x) outcome" where
  "io_Copy V D = read_turns V io_Copy_size (io_Copy_round D)"

section \<open>The receiver\<close>

record receiver =
  rcv_session :: Session

definition newReceiver ::
  "('q, 'c, 's) quic_go \<Rightarrow> 'c QUICGoConnection \<Rightarrow> 'q \<Rightarrow> goerror + receiver" where
  "newReceiver L conn q =
     (case NewSession (Some (quicgo_conn L conn q)) True [] of
        Inl err \<Rightarrow> Inl err
      | Inr session \<Rightarrow> Inr \<lparr>rcv_session = session\<rparr>)"

text \<open>Behind the copying run the deferred calls: the writer is closed, then the flow.\<close>

definition receive ::
  "varint_lib \<Rightarrow> 'x WriteCloser \<Rightarrow> u64 \<Rightarrow> turn list \<Rightarrow> receiver \<Rightarrow> 'x \<Rightarrow>
     (goerror option option \<times> receiver \<times> 'x) outcome" where
  "receive V D flowID turns rc x =
     bind_outcome (NewReceiveFlow (rcv_session rc) flowID) (\<lambda>(res, s).
       case res of
         Inl err \<Rightarrow> Done (Some (Some err), rc\<lparr>rcv_session := s\<rparr>, x)
       | Inr flow \<Rightarrow>
           bind_outcome (io_Copy V D flow turns s x) (\<lambda>(err, s', x').
             if err = None then Done (None, rc\<lparr>rcv_session := s'\<rparr>, x')
             else bind_outcome (close_receive_flow flow s') (\<lambda>(s'', _).
               Done (err, rc\<lparr>rcv_session := s''\<rparr>, snd (wc_Close D x')))))"

definition receiver_Close ::
  "(nat \<Rightarrow> RTPSendStream) \<Rightarrow> close_results \<Rightarrow> receiver \<Rightarrow> (goerror option \<times> receiver \<times> effect list) outcome" where
  "receiver_Close deref cr rc =
     bind_outcome (Session_Close deref cr (rcv_session rc)) (\<lambda>(e, s, es).
       Done (e, rc\<lparr>rcv_session := s\<rparr>, es))"

section \<open>How copying ends\<close>

lemma io_Copy_round_result:
  assumes "rf_ok [] f" and "Read n f = Some (res, f')"
  shows "\<exists>stop x'. io_Copy_round D res x = Done (stop, x') \<and>
    (case stop of None \<Rightarrow> True | Some e \<Rightarrow> e \<noteq> None)"
proof -
  obtain nr er buf where res: "res = (nr, er, buf)"
    by (cases res)
  then have "er \<noteq> Some io_EOF"
    using Read_no_EOF(1) [OF assms(1), of n] assms(2) by simp
  then show ?thesis
    by (auto simp: res io_Copy_round_def split: prod.split option.split)
qed

section \<open>What is copied\<close>

text \<open>A writer that takes everything; \<open>out\<close> are the writes so far.\<close>

definition takes_all :: "'x WriteCloser \<Rightarrow> ('x \<Rightarrow> byte list list) \<Rightarrow> bool" where
  "takes_all D out \<longleftrightarrow>
     (\<forall>b x. \<exists>x'. wc_Write D b x = ((int (length b), None), x') \<and> out x' = out x @ [b])"

lemma io_Copy_write_all:
  assumes "takes_all D out"
  shows "\<exists>x'. io_Copy_write D b x = (None, x') \<and> out x' = out x @ [b]"
proof -
  obtain x' where "wc_Write D b x = ((int (length b), None), x')" "out x' = out x @ [b]"
    using assms unfolding takes_all_def by blast
  then show ?thesis
    by (simp add: io_Copy_write_def)
qed

lemma io_Copy_round_consumes:
  assumes "takes_all D out"
  shows "consumes n (\<lambda>_. True) (io_Copy_round D) out (\<lambda>p. filter (\<lambda>p. p \<noteq> []) [p])"
  unfolding consumes_def
proof (intro allI impI)
  fix p x
  obtain x' where "io_Copy_write D p x = (None, x')" "out x' = out x @ [p]"
    using io_Copy_write_all [OF assms] by blast
  then show "\<exists>x'. io_Copy_round D (int (length p), None, p) x = Done (None, x') \<and>
      out x' = out x @ filter (\<lambda>p. p \<noteq> []) [p]"
    by (cases "p = []") (simp_all add: io_Copy_round_def)
qed

lemma concat_filter_single: "concat (map (\<lambda>p. filter P [p]) ps) = filter P ps"
  by (induction ps) simp_all

section \<open>The whole call\<close>

context quicvarint
begin

text \<open>What the receiver writes. On a new flow, whatever the interleaving of arriving datagrams and
  streams with the copying, every non-empty packet of the flow is written once, unchanged and in the
  order of arrival, each by one call of \<open>Write\<close>, if at most a buffer of packets arrives and no packet
  is longer than the buffer of \<open>io.Copy\<close>; the receiver then waits for more.\<close>

lemma receive_delivers:
  assumes "fits62 i" and "takes_all D out" and "session_ok (rcv_session rc)"
    and "s_closedErr (rcv_session rc) = None" and "sm_get (s_receiveFlows (rcv_session rc)) i = None"
    and "map_of (rfb_buffer (s_receiveFlowBuffer (rcv_session rc))) i = None"
    and "arrives V i turns ps" and "int (length ps) \<le> s_receiveBufferSize (rcv_session rc)"
    and "\<forall>p \<in> set ps. length p \<le> io_Copy_size" and "length ps \<le> n"
  shows "\<exists>rc' x'. receive V D i (turns @ replicate n None) rc x = Done (None, rc', x') \<and>
    out x' = out x @ filter (\<lambda>p. p \<noteq> []) ps"
proof -
  have "\<forall>p \<in> set ps. length p \<le> io_Copy_size \<and> True"
    using assms(9) by simp
  from read_turns_new_flow [OF assms(1) io_Copy_round_consumes [OF assms(2)] assms(3-8) this assms(10), of x]
  obtain r s1 s2 x' where "NewReceiveFlow (rcv_session rc) i = Done (Inr r, s1)"
    "read_turns V io_Copy_size (io_Copy_round D) r (turns @ replicate n None) s1 x = Done (None, s2, x')"
    "out x' = out x @ filter (\<lambda>p. p \<noteq> []) ps"
    unfolding concat_filter_single by blast
  then show ?thesis
    by (simp add: receive_def io_Copy_def)
qed

text \<open>How receiving ends. Whatever arrives and however the writer behaves, \<open>receive\<close> does not
  panic, keeps the session well-formed, and when it returns after creating its flow, the flow is
  closed. It never returns nil: \<open>io.Copy\<close> takes only \<open>io.EOF\<close> for the end, and \<open>Read\<close> reports a closed
  flow by the error of its context.\<close>

lemma receive_result:
  assumes "session_ok (rcv_session rc)" and "turns_ok turns"
  shows "\<exists>res rc' x'. receive V D i turns rc x = Done (res, rc', x') \<and> session_ok (rcv_session rc') \<and>
    res \<noteq> Some None \<and>
    (res \<noteq> None \<and> s_closedErr (rcv_session rc) = None \<and> sm_get (s_receiveFlows (rcv_session rc)) i = None \<longrightarrow>
      (\<exists>r f. sm_get (s_receiveFlows (rcv_session rc')) i = Some r \<and>
        st_flow (s_rstore (rcv_session rc')) r = Some f \<and> rf_closed f))"
proof (cases "s_closedErr (rcv_session rc) = None \<and> sm_get (s_receiveFlows (rcv_session rc)) i = None")
  case False
  then show ?thesis
    using assms(1)
    by (auto simp: receive_def NewReceiveFlow_def isClosed_def NewReceiveFlow_locked_def split: option.split)
next
  case True
  obtain r s where new: "NewReceiveFlow (rcv_session rc) i = Done (Inr r, s)" "session_ok s"
    "sm_get (s_receiveFlows s) i = Some r"
    by (rule NewReceiveFlow_open [OF assms(1) conjunct1 [OF True] conjunct2 [OF True]]) (rule that)
  have "\<exists>res s' x'. io_Copy V D r turns s x = Done (res, s', x') \<and>
      (case res of None \<Rightarrow> True | Some e \<Rightarrow> e \<noteq> None) \<and> session_ok s' \<and> sm_get (s_receiveFlows s') i = Some r"
    unfolding io_Copy_def by (rule read_turns_result [OF new(2) assms(2) new(3) io_Copy_round_result])
  then obtain res s1 x1 where c: "io_Copy V D r turns s x = Done (res, s1, x1)"
    "case res of None \<Rightarrow> True | Some e \<Rightarrow> e \<noteq> None" "session_ok s1" "sm_get (s_receiveFlows s1) i = Some r"
    by blast
  then have "res \<noteq> Some None"
    by auto
  obtain f where f: "st_flow (s_rstore s1) r = Some f"
    by (rule registered_flow [OF c(3,4)])
  obtain s2 es where cl: "close_receive_flow r s1 = Done (s2, es)" "session_ok s2"
    using close_receive_flow_ok [OF c(3)] by blast
  have "store_ok (s_rstore s1)"
    using c(3) by (simp add: session_ok_def recv_ok_def)
  then have "s2 = s1\<lparr>s_rstore := close_flows {r} (s_rstore s1)\<rparr>"
    using close_receive_flow_eq [of s1 r] cl(1) by simp
  then have "sm_get (s_receiveFlows s2) i = Some r \<and> (\<exists>f. st_flow (s_rstore s2) r = Some f \<and> rf_closed f)"
    using f c(4) by (simp add: close_flows_def closed_flow_def)
  then show ?thesis
    using new(1) c \<open>res \<noteq> Some None\<close> cl by (cases "res = None") (auto simp: receive_def)
qed

end

text \<open>A writer to memory, for concrete instances.\<close>

definition memory_writer :: "byte list list WriteCloser" where
  "memory_writer = \<lparr>wc_Write = (\<lambda>b x. ((int (length b), None), x @ [b])), wc_Close = (\<lambda>x. (None, x))\<rparr>"

lemma memory_writer_takes_all: "takes_all memory_writer id"
  by (simp add: takes_all_def memory_writer_def)

end
