(* ===== verification/Interop_End_To_End.thy ===== *)
theory Interop_End_To_End
  imports Interop_Receiver
begin

text \<open>
  The sender and the receiver of \<open>examples/interop\<close> together: what the sender's \<open>send\<close> puts on the
  connection is what the receiver's session is handed, and the receiver writes the packets of the
  frames.
\<close>

section \<open>From the connection to a schedule\<close>

text \<open>The calls of the session's goroutines in a schedule, without the turns of the copying.\<close>

definition calls :: "turn list \<Rightarrow> session_op list" where
  "calls turns = map snd (non_nil turns)"

lemma calls_simps [simp]:
  "calls [] = []" "calls (None # turns) = calls turns" "calls (Some (w, op) # turns) = op # calls turns"
  by (simp_all add: calls_def)





section \<open>Properties\<close>



end
