(* ===== verification/Interop_Files.thy ===== *)
theory Interop_Files
  imports Interop_Receiver
begin

text \<open>
  \<open>examples/interop/file_writer.go\<close> and \<open>ivf_frame_reader.go\<close>: a writer that takes RTP packets as bytes,
  reorders them in a jitter buffer and writes them to a media file, and a reader of the frames of a
  file. The jitter buffer, the parser of RTP packets and the media files are from packages of pion,
  which are the parameters \<open>media\<close> and \<open>ivf\<close>.
\<close>

section \<open>The file writer\<close>

text \<open>
  A media writer \<open>'w\<close> is a value of one of two types, over a file or over an \<open>io.Writer\<close> whose state \<open>'x\<close> it
  then holds. \<open>Pop\<close> gives an error when no packet is ready; a nil packet without an error is possible for
  its type.
\<close>

record ('p, 'j, 'w, 'x) media =
  rtp_Unmarshal :: "byte list \<Rightarrow> goerror + 'p"
  jb_New :: 'j
  jb_Push :: "'p \<Rightarrow> 'j \<Rightarrow> 'j"
  jb_Pop :: "'j \<Rightarrow> (goerror + 'p option) \<times> 'j"
  ivfwriter_New :: "string \<Rightarrow> goerror + 'w"
  h264writer_New :: "string \<Rightarrow> goerror + 'w"
  ivfwriter_NewWith :: "(byte list \<Rightarrow> 'x \<Rightarrow> write_result \<times> 'x) \<Rightarrow> 'x \<Rightarrow> goerror + 'w"
  h264writer_NewWith :: "(byte list \<Rightarrow> 'x \<Rightarrow> write_result \<times> 'x) \<Rightarrow> 'x \<Rightarrow> 'w"
  rw_WriteRTP :: "'p \<Rightarrow> 'w \<Rightarrow> goerror option \<times> 'w"
  rw_Close :: "'w \<Rightarrow> goerror option \<times> 'w"

record ('j, 'w) fileWriter =
  fw_buffer :: 'j
  fw_writer :: 'w

definition newFileWriter ::
  "('p, 'j, 'w, 'x) media \<Rightarrow> string \<Rightarrow> string \<Rightarrow> goerror + ('j, 'w) fileWriter" where
  "newFileWriter M filename codec =
     (if codec = ''vp8'' then map_sum id (\<lambda>w. \<lparr>fw_buffer = jb_New M, fw_writer = w\<rparr>) (ivfwriter_New M filename)
      else if codec = ''h264'' then
        map_sum id (\<lambda>w. \<lparr>fw_buffer = jb_New M, fw_writer = w\<rparr>) (h264writer_New M filename)
      else Inl (errors_New ''unknown codec''))"

text \<open>\<open>wrapper\<close> hides every method of its writer but \<open>Write\<close>.\<close>

record 'x wrapper =
  wrapper_w :: "byte list \<Rightarrow> 'x \<Rightarrow> write_result \<times> 'x"

definition wrapper_Write :: "'x wrapper \<Rightarrow> byte list \<Rightarrow> 'x \<Rightarrow> write_result \<times> 'x" where
  "wrapper_Write w buf = wrapper_w w buf"

definition newIVFWriterWith ::
  "('p, 'j, 'w, 'x) media \<Rightarrow> (byte list \<Rightarrow> 'x \<Rightarrow> write_result \<times> 'x) \<Rightarrow> 'x \<Rightarrow> string \<Rightarrow>
     goerror + ('j, 'w) fileWriter" where
  "newIVFWriterWith M writer x codec =
     (let wr = \<lparr>wrapper_w = writer\<rparr> in
      if codec = ''vp8'' then
        map_sum id (\<lambda>w. \<lparr>fw_buffer = jb_New M, fw_writer = w\<rparr>) (ivfwriter_NewWith M (wrapper_Write wr) x)
      else if codec = ''h264'' then Inr \<lparr>fw_buffer = jb_New M, fw_writer = h264writer_NewWith M (wrapper_Write wr) x\<rparr>
      else Inl (errors_New ''unknown codec''))"

text \<open>The loop of \<open>Write\<close>; \<open>None\<close> means that it does not end.\<close>

partial_function (option) pop_loop ::
  "('p, 'j, 'w, 'x) media \<Rightarrow> ('j, 'w) fileWriter \<Rightarrow> (goerror option \<times> ('j, 'w) fileWriter) option" where
  "pop_loop M w =
     (case jb_Pop M (fw_buffer w) of
        (Inl err, j) \<Rightarrow> Some (None, w\<lparr>fw_buffer := j\<rparr>)
      | (Inr None, j) \<Rightarrow> pop_loop M (w\<lparr>fw_buffer := j\<rparr>)
      | (Inr (Some p), j) \<Rightarrow>
          (case rw_WriteRTP M p (fw_writer w) of
             (Some err, x) \<Rightarrow> Some (Some err, w\<lparr>fw_buffer := j, fw_writer := x\<rparr>)
           | (None, x) \<Rightarrow> pop_loop M (w\<lparr>fw_buffer := j, fw_writer := x\<rparr>)))"

definition fileWriter_Write ::
  "('p, 'j, 'w, 'x) media \<Rightarrow> byte list \<Rightarrow> ('j, 'w) fileWriter \<Rightarrow> (write_result \<times> ('j, 'w) fileWriter) option" where
  "fileWriter_Write M buf w =
     (let c0 = replicate (length buf) (0 :: byte);
          n = min (length c0) (length buf);
          c = take n buf @ drop n c0
      in if n \<noteq> length buf then Some ((int n, Some (errors_New ''copy error'')), w)
         else (case rtp_Unmarshal M c of
                 Inl err \<Rightarrow> Some ((int (length buf), Some err), w)
               | Inr pkt \<Rightarrow>
                   map_option (\<lambda>(err, w'). ((int (length buf), err), w'))
                     (pop_loop M (w\<lparr>fw_buffer := jb_Push M pkt (fw_buffer w)\<rparr>))))"

definition fileWriter_Close ::
  "('p, 'j, 'w, 'x) media \<Rightarrow> ('j, 'w) fileWriter \<Rightarrow> goerror option \<times> ('j, 'w) fileWriter" where
  "fileWriter_Close M w = (case rw_Close M (fw_writer w) of (e, x) \<Rightarrow> (e, w\<lparr>fw_writer := x\<rparr>))"

text \<open>The file writer as the \<open>io.WriteCloser\<close> that \<open>receive\<close> is given; its \<open>Write\<close> returns if the jitter
  buffer is finite, as is shown below.\<close>

definition fileWriter_wc :: "('p, 'j, 'w, 'x) media \<Rightarrow> ('j, 'w) fileWriter WriteCloser" where
  "fileWriter_wc M = \<lparr>wc_Write = (\<lambda>buf w. the (fileWriter_Write M buf w)), wc_Close = fileWriter_Close M\<rparr>"

section \<open>The frame reader\<close>

record ('iv, 'h, 'fh, 'r) ivf =
  ivfreader_NewWith :: "'r \<Rightarrow> goerror + ('iv \<times> 'h)"
  ParseNextFrame :: "'iv \<Rightarrow> (byte list \<times> 'fh \<times> goerror option) \<times> 'iv"

record ('iv, 'h) ivfFrameReader =
  ifr_header :: 'h
  ifr_reader :: 'iv

definition newIVFFrameReader :: "('iv, 'h, 'fh, 'r) ivf \<Rightarrow> 'r \<Rightarrow> goerror + ('iv, 'h) ivfFrameReader" where
  "newIVFFrameReader I r =
     (case ivfreader_NewWith I r of
        Inl err \<Rightarrow> Inl err
      | Inr (iv, header) \<Rightarrow> Inr \<lparr>ifr_header = header, ifr_reader = iv\<rparr>)"

definition ivfFrameReader_Read ::
  "('iv, 'h, 'fh, 'r) ivf \<Rightarrow> ('iv, 'h) ivfFrameReader \<Rightarrow> (byte list \<times> goerror option) \<times> ('iv, 'h) ivfFrameReader" where
  "ivfFrameReader_Read I r =
     (case ParseNextFrame I (ifr_reader r) of ((fr, _, err), iv) \<Rightarrow> ((fr, err), r\<lparr>ifr_reader := iv\<rparr>))"

text \<open>The results of \<open>n\<close> reads, as \<open>send\<close> sees them: it looks at the frame only if there is no error.\<close>

primrec ivf_reads :: "('iv, 'h, 'fh, 'r) ivf \<Rightarrow> nat \<Rightarrow> ('iv, 'h) ivfFrameReader \<Rightarrow> (goerror + byte list) list" where
  "ivf_reads I 0 r = []"
| "ivf_reads I (Suc n) r =
     (case ivfFrameReader_Read I r of
        ((fr, err), r') \<Rightarrow> (case err of Some e \<Rightarrow> Inl e | None \<Rightarrow> Inr fr) # ivf_reads I n r')"

section \<open>What a write does\<close>

text \<open>The packets a jitter buffer gives out until it has none, and writing them until one fails.\<close>

inductive pops :: "('p, 'j, 'w, 'x) media \<Rightarrow> 'j \<Rightarrow> 'p list \<Rightarrow> 'j \<Rightarrow> bool" for M where
  empty: "jb_Pop M j = (Inl e, j') \<Longrightarrow> pops M j [] j'"
| skip: "jb_Pop M j = (Inr None, j1) \<Longrightarrow> pops M j1 ps j' \<Longrightarrow> pops M j ps j'"
| packet: "jb_Pop M j = (Inr (Some p), j1) \<Longrightarrow> pops M j1 ps j' \<Longrightarrow> pops M j (p # ps) j'"

fun write_packets :: "('p, 'j, 'w, 'x) media \<Rightarrow> 'p list \<Rightarrow> 'w \<Rightarrow> goerror option \<times> 'w" where
  "write_packets M [] x = (None, x)"
| "write_packets M (p # ps) x =
     (case rw_WriteRTP M p x of (Some e, x') \<Rightarrow> (Some e, x') | (None, x') \<Rightarrow> write_packets M ps x')"

text \<open>A jitter buffer holds finitely many packets: every \<open>Pop\<close> without an error takes something out.\<close>

definition finite_buffer :: "('p, 'j, 'w, 'x) media \<Rightarrow> ('j \<Rightarrow> nat) \<Rightarrow> bool" where
  "finite_buffer M count \<longleftrightarrow> (\<forall>j x j'. jb_Pop M j = (Inr x, j') \<longrightarrow> count j' < count j)"

lemma pops_exist:
  assumes "finite_buffer M count"
  shows "\<exists>ps j'. pops M j ps j'"
proof (induction j rule: measure_induct_rule [of count])
  case (less j)
  obtain res j1 where p: "jb_Pop M j = (res, j1)"
    by (cases "jb_Pop M j")
  show ?case
  proof (cases res)
    case (Inl e)
    then show ?thesis
      using p by (auto intro: pops.empty)
  next
    case (Inr x)
    then have "count j1 < count j"
      using assms p by (simp add: finite_buffer_def)
    then obtain ps j' where "pops M j1 ps j'"
      using less by blast
    then show ?thesis
      using p Inr by (cases x) (auto intro: pops.skip pops.packet)
  qed
qed

lemma pop_loop_pops:
  assumes "pops M j ps j'"
  shows "\<exists>w'. pop_loop M \<lparr>fw_buffer = j, fw_writer = x\<rparr> = Some (fst (write_packets M ps x), w') \<and>
    fw_writer w' = snd (write_packets M ps x) \<and>
    (fst (write_packets M ps x) = None \<longrightarrow> fw_buffer w' = j')"
  using assms
proof (induction arbitrary: x rule: pops.induct)
  case (empty j e j')
  then show ?case by (subst pop_loop.simps) simp
next
  case (skip j j1 ps j')
  then show ?case by (subst pop_loop.simps) simp
next
  case (packet j p j1 ps j')
  obtain res x' where "rw_WriteRTP M p x = (res, x')"
    by (cases "rw_WriteRTP M p x")
  then show ?case
    using packet.IH [of x'] packet.hyps by (subst pop_loop.simps) (cases res; simp)
qed

section \<open>Properties\<close>

text \<open>C32: \<open>Write\<close> of the file writer always returns, with the length of its argument as the count, as
  \<open>io.Copy\<close> requires. Bytes that are no RTP packet are an error and change nothing. Any other packet
  goes into the jitter buffer, and what the buffer then gives out is written in that order, up to the
  first error, which \<open>Write\<close> returns; an empty jitter buffer is no error.\<close>

theorem file_writer_write:
  assumes "finite_buffer M count"
  shows "\<exists>err w'. fileWriter_Write M buf w = Some ((int (length buf), err), w') \<and>
    (case rtp_Unmarshal M buf of
       Inl e \<Rightarrow> err = Some e \<and> w' = w
     | Inr pkt \<Rightarrow> \<exists>ps j'. pops M (jb_Push M pkt (fw_buffer w)) ps j' \<and>
         (err, fw_writer w') = write_packets M ps (fw_writer w) \<and> (err = None \<longrightarrow> fw_buffer w' = j'))"
proof (cases "rtp_Unmarshal M buf")
  case (Inl e)
  then show ?thesis
    by (simp add: fileWriter_Write_def)
next
  case (Inr pkt)
  obtain ps j' where ps: "pops M (jb_Push M pkt (fw_buffer w)) ps j'"
    using pops_exist [OF assms] by blast
  have "w\<lparr>fw_buffer := jb_Push M pkt (fw_buffer w)\<rparr> =
      \<lparr>fw_buffer = jb_Push M pkt (fw_buffer w), fw_writer = fw_writer w\<rparr>"
    by (cases w) simp
  then obtain w' where "pop_loop M (w\<lparr>fw_buffer := jb_Push M pkt (fw_buffer w)\<rparr>)
      = Some (fst (write_packets M ps (fw_writer w)), w')"
    "fw_writer w' = snd (write_packets M ps (fw_writer w))"
    "fst (write_packets M ps (fw_writer w)) = None \<longrightarrow> fw_buffer w' = j'"
    using pop_loop_pops [OF ps, of "fw_writer w"] by auto
  then show ?thesis
    using Inr ps by (auto simp: fileWriter_Write_def prod_eq_iff)
qed

text \<open>A media package in memory, for concrete instances: packets are bytes that are not empty, and the
  jitter buffer gives out what it holds at once.\<close>

definition memory_media :: "(byte list, byte list list, byte list list, unit) media" where
  "memory_media =
     \<lparr>rtp_Unmarshal = (\<lambda>b. if b = [] then Inl io_ErrShortBuffer else Inr b), jb_New = [],
      jb_Push = (\<lambda>p j. j @ [p]),
      jb_Pop = (\<lambda>j. case j of [] \<Rightarrow> (Inl (errors_New ''empty''), []) | p # ps \<Rightarrow> (Inr (Some p), ps)),
      ivfwriter_New = (\<lambda>name. Inr []), h264writer_New = (\<lambda>name. Inr []),
      ivfwriter_NewWith = (\<lambda>wr x. Inr []), h264writer_NewWith = (\<lambda>wr x. []),
      rw_WriteRTP = (\<lambda>p w. (None, w @ [p])), rw_Close = (\<lambda>w. (None, w))\<rparr>"

lemma memory_media_finite: "finite_buffer memory_media length"
  by (auto simp: finite_buffer_def memory_media_def split: list.splits)

theorem file_writer_write_witness:
  "\<exists>w'. fileWriter_Write memory_media [128, 1] \<lparr>fw_buffer = [[128, 0]], fw_writer = [[128]]\<rparr>
       = Some ((2, None), w') \<and> fw_writer w' = [[128], [128, 0], [128, 1]]"
proof -
  let ?w = "\<lparr>fw_buffer = [[128, 0]], fw_writer = [[128]]\<rparr> :: (byte list list, byte list list) fileWriter"
  note ev = memory_media_def
  have pop: "pops memory_media [[128, 0], [128, 1]] ps j' \<longleftrightarrow> ps = [[128, 0], [128, 1]] \<and> j' = []" for ps j'
    by (subst pops.simps, simp add: ev, subst pops.simps, simp, subst pops.simps, auto)
  show ?thesis
    using file_writer_write [OF memory_media_finite, of "[128, 1]" ?w]
    by (auto simp: ev pop [unfolded ev, simplified])
qed

end
