(* ===== verification/Interop_Main.thy ===== *)
theory Interop_Main
  imports Interop_Files
begin

text \<open>
  \<open>examples/interop/main.go\<close>: the command line, the TLS configuration, the connection, and the runs of a
  sender and of a receiver with their processes. The operating system, the TLS and certificate
  functions and the package quic-go act on one state \<open>'e\<close> of the outside world.
\<close>

section \<open>Flags\<close>

text \<open>The command line as package \<open>flag\<close> parsed it: the values given, by name.\<close>

record cmdline =
  cl_Bool :: "string \<Rightarrow> bool option"
  cl_Int :: "string \<Rightarrow> int option"
  cl_String :: "string \<Rightarrow> string option"

definition flag_Bool :: "cmdline \<Rightarrow> string \<Rightarrow> bool \<Rightarrow> bool" where
  "flag_Bool cl name dflt = (case cl_Bool cl name of None \<Rightarrow> dflt | Some v \<Rightarrow> v)"

definition flag_Int :: "cmdline \<Rightarrow> string \<Rightarrow> int \<Rightarrow> int" where
  "flag_Int cl name dflt = (case cl_Int cl name of None \<Rightarrow> dflt | Some v \<Rightarrow> v)"

definition flag_String :: "cmdline \<Rightarrow> string \<Rightarrow> string \<Rightarrow> string" where
  "flag_String cl name dflt = (case cl_String cl name of None \<Rightarrow> dflt | Some v \<Rightarrow> v)"

lemmas flag_defs = flag_Bool_def flag_Int_def flag_String_def

record flags =
  Server :: bool
  Send :: bool
  Cert :: string
  Key :: string
  Addr :: string
  Destination :: string
  Source :: string
  Codec :: string
  Mode :: mode

definition parseFlags :: "cmdline \<Rightarrow> flags" where
  "parseFlags cl =
     \<lparr>Server = flag_Bool cl ''server'' False, Send = flag_Bool cl ''send'' False,
      Cert = flag_String cl ''cert'' ''localhost.pem'', Key = flag_String cl ''key'' ''localhost-key.pem'',
      Addr = flag_String cl ''addr'' ''localhost:8080'', Destination = flag_String cl ''destination'' '''',
      Source = flag_String cl ''source'' '''', Codec = flag_String cl ''codec'' ''vp8'',
      Mode = flag_Int cl ''mode'' datagramMode\<rparr>"

section \<open>The outside world\<close>

record ('crt, 'k) tls_Config =
  Certificates :: "'crt list"
  NextProtos :: "string list"
  KeyLogWriter :: "'k option"
  InsecureSkipVerify :: bool

record quic_Config =
  InitialStreamReceiveWindow :: int
  MaxStreamReceiveWindow :: int
  InitialConnectionReceiveWindow :: int
  MaxConnectionReceiveWindow :: int
  MaxIncomingStreams :: int
  MaxIncomingUniStreams :: int
  EnableDatagrams :: bool
  Tracer :: bool

text \<open>A literal that sets the datagrams and the tracer and leaves the rest at zero.\<close>

definition datagram_config :: quic_Config where
  "datagram_config =
     \<lparr>InitialStreamReceiveWindow = 0, MaxStreamReceiveWindow = 0, InitialConnectionReceiveWindow = 0,
      MaxConnectionReceiveWindow = 0, MaxIncomingStreams = 0, MaxIncomingUniStreams = 0,
      EnableDatagrams = True, Tracer = True\<rparr>"

text \<open>Certificates, key log files, RSA keys, listeners and connections are handles; a process is known by
  its command line.\<close>

record ('e, 'k, 'crt, 'key, 'l, 'c) network =
  os_Getenv :: "string \<Rightarrow> 'e \<Rightarrow> string"
  os_Create :: "string \<Rightarrow> 'e \<Rightarrow> (goerror + 'k) \<times> 'e"
  file_Close :: "'k \<Rightarrow> 'e \<Rightarrow> goerror option \<times> 'e"
  json_Marshal :: "flags \<Rightarrow> goerror + byte list"
  tls_LoadX509KeyPair :: "string \<Rightarrow> string \<Rightarrow> 'e \<Rightarrow> (goerror + 'crt) \<times> 'e"
  rsa_GenerateKey :: "nat \<Rightarrow> 'e \<Rightarrow> (goerror + 'key) \<times> 'e"
  x509_CreateCertificate :: "int \<Rightarrow> 'key \<Rightarrow> 'e \<Rightarrow> (goerror + byte list) \<times> 'e"
  x509_MarshalPKCS1PrivateKey :: "'key \<Rightarrow> byte list"
  pem_EncodeToMemory :: "string \<Rightarrow> byte list \<Rightarrow> byte list"
  tls_X509KeyPair :: "byte list \<Rightarrow> byte list \<Rightarrow> goerror + 'crt"
  quic_ListenAddr :: "string \<Rightarrow> ('crt, 'k) tls_Config \<Rightarrow> quic_Config \<Rightarrow> 'e \<Rightarrow> (goerror + 'l) \<times> 'e"
  Listener_Accept :: "'l \<Rightarrow> 'e \<Rightarrow> (goerror + 'c) \<times> 'e"
  quic_DialAddr :: "string \<Rightarrow> ('crt, 'k) tls_Config \<Rightarrow> quic_Config \<Rightarrow> 'e \<Rightarrow> (goerror + 'c) \<times> 'e"

type_synonym cmd = "string list"

record ('e, 'r, 'x, 'z) processes =
  Cmd_StdoutPipe :: "cmd \<Rightarrow> 'e \<Rightarrow> (goerror + 'r) \<times> 'e"
  Cmd_StdinPipe :: "cmd \<Rightarrow> 'e \<Rightarrow> (goerror + 'x) \<times> 'e"
  pipe_Write :: "byte list \<Rightarrow> 'x \<Rightarrow> write_result \<times> 'x"
  Cmd_Start :: "cmd \<Rightarrow> 'e \<Rightarrow> goerror option \<times> 'e"
  Cmd_Wait :: "cmd \<Rightarrow> 'e \<Rightarrow> goerror option \<times> 'e"
  Process_Kill :: "cmd \<Rightarrow> 'e \<Rightarrow> goerror option \<times> 'e"
  rtp_NewPacketizer :: "nat \<Rightarrow> nat \<Rightarrow> nat \<Rightarrow> string \<Rightarrow> nat \<Rightarrow> 'e \<Rightarrow> 'z \<times> 'e"

section \<open>Connecting\<close>

text \<open>A pointer to a configuration is an option, returned next to the error.\<close>

definition generateTLSConfigWithCertAndKey ::
  "('e, 'k, 'crt, 'key, 'l, 'c) network \<Rightarrow> string \<Rightarrow> string \<Rightarrow> 'k option \<Rightarrow> 'e \<Rightarrow>
     (('crt, 'k) tls_Config option \<times> goerror option) \<times> 'e" where
  "generateTLSConfigWithCertAndKey W certFile keyFile keyLog e =
     (case tls_LoadX509KeyPair W certFile keyFile e of
        (Inl err, e') \<Rightarrow> ((None, Some err), e')
      | (Inr cert, e') \<Rightarrow>
          ((Some \<lparr>Certificates = [cert], NextProtos = [''roq-09''], KeyLogWriter = keyLog,
                  InsecureSkipVerify = False\<rparr>, None), e'))"

definition generateTLSConfigWithNewCert ::
  "('e, 'k, 'crt, 'key, 'l, 'c) network \<Rightarrow> 'k option \<Rightarrow> 'e \<Rightarrow>
     (('crt, 'k) tls_Config option \<times> goerror option) \<times> 'e" where
  "generateTLSConfigWithNewCert W keyLog e =
     (case rsa_GenerateKey W 1024 e of
        (Inl err, e1) \<Rightarrow> ((None, Some err), e1)
      | (Inr key, e1) \<Rightarrow>
          (case x509_CreateCertificate W 1 key e1 of
             (Inl err, e2) \<Rightarrow> ((None, Some err), e2)
           | (Inr certDER, e2) \<Rightarrow>
               (let keyPEM = pem_EncodeToMemory W ''RSA PRIVATE KEY'' (x509_MarshalPKCS1PrivateKey W key);
                    certPEM = pem_EncodeToMemory W ''CERTIFICATE'' certDER
                in case tls_X509KeyPair W certPEM keyPEM of
                     Inl err \<Rightarrow> ((None, Some err), e2)
                   | Inr tlsCert \<Rightarrow>
                       ((Some \<lparr>Certificates = [tlsCert], NextProtos = [''roq-09''], KeyLogWriter = keyLog,
                               InsecureSkipVerify = False\<rparr>, None), e2))))"

definition generateTLSConfig ::
  "('e, 'k, 'crt, 'key, 'l, 'c) network \<Rightarrow> string \<Rightarrow> string \<Rightarrow> 'k option \<Rightarrow> 'e \<Rightarrow>
     (('crt, 'k) tls_Config option \<times> goerror option) \<times> 'e" where
  "generateTLSConfig W certFile keyFile keyLog e =
     (case generateTLSConfigWithCertAndKey W certFile keyFile keyLog e of
        ((tlsConfig, err), e') \<Rightarrow>
          if err \<noteq> None then generateTLSConfigWithNewCert W keyLog e' else ((tlsConfig, err), e'))"

text \<open>\<open>connect\<close> writes through the pointer before it looks at the error.\<close>

definition connect ::
  "('e, 'k, 'crt, 'key, 'l, 'c) network \<Rightarrow> flags \<Rightarrow> 'k option \<Rightarrow> 'e \<Rightarrow> ((goerror + 'c) \<times> 'e) outcome" where
  "connect W f keyLog e =
     (if Server f then
        (case generateTLSConfig W (Cert f) (Key f) keyLog e of
           ((None, err), e1) \<Rightarrow> Panic ''nil pointer dereference''
         | ((Some config, err), e1) \<Rightarrow>
             (let tlsConfig = config\<lparr>InsecureSkipVerify := True\<rparr> in
              case err of
                Some er \<Rightarrow> Done (Inl er, e1)
              | None \<Rightarrow>
                  (case quic_ListenAddr W (Addr f) tlsConfig datagram_config e1 of
                     (Inl er, e2) \<Rightarrow> Done (Inl er, e2)
                   | (Inr listener, e2) \<Rightarrow>
                       (case Listener_Accept W listener e2 of
                          (Inl er, e3) \<Rightarrow> Done (Inl er, e3)
                        | (Inr conn, e3) \<Rightarrow> Done (Inr conn, e3)))))
      else
        (case quic_DialAddr W (Addr f)
                \<lparr>Certificates = [], NextProtos = [''roq-09''], KeyLogWriter = keyLog, InsecureSkipVerify = True\<rparr>
                datagram_config e of
           (Inl er, e1) \<Rightarrow> Done (Inl er, e1)
         | (Inr conn, e1) \<Rightarrow> Done (Inr conn, e1)))"

definition getSSLKeyLog ::
  "('e, 'k, 'crt, 'key, 'l, 'c) network \<Rightarrow> 'e \<Rightarrow> (goerror + 'k option) \<times> 'e" where
  "getSSLKeyLog W e =
     (let filename = os_Getenv W ''SSLKEYLOGFILE'' e in
      if filename = '''' then (Inr None, e)
      else (case os_Create W filename e of
              (Inl err, e') \<Rightarrow> (Inl err, e')
            | (Inr f, e') \<Rightarrow> (Inr (Some f), e')))"

section \<open>Running\<close>

definition ffmpeg :: "flags \<Rightarrow> cmd" where
  "ffmpeg f =
     (if length (Source f) = 0 then
        [''ffmpeg'', ''-v'', ''debug'', ''-re'', ''-f'', ''lavfi'', ''-i'', ''testsrc=duration=10'', ''-g'', ''30'',
         ''-b:v'', ''1M'', ''-f'', ''ivf'', ''-'']
      else [''ffmpeg'', ''-v'', ''debug'', ''-re'', ''-i'', Source f, ''-b:v'', ''1M'', ''-f'', ''ivf'', ''-''])"

text \<open>
  \<open>runSender\<close>, up to the \<open>n\<close>th frame that is read: the result (\<open>None\<close> while it runs), the session as it is
  left, and the world. \<open>cr\<close> is what closing the streams and the connection returns.
\<close>

definition runSender ::
  "('e, 'c, 's) quic_go \<Rightarrow> varint_lib \<Rightarrow> ('z, 'p) rtp \<Rightarrow> ('iv, 'h, 'fh, 'r) ivf \<Rightarrow> ('e, 'r, 'x, 'z) processes \<Rightarrow>
     close_results \<Rightarrow> nat \<Rightarrow> flags \<Rightarrow> 'c \<Rightarrow> 'e \<Rightarrow>
     (goerror option option \<times> Session option \<times> 'e) outcome" where
  "runSender L V R I X cr n f conn e =
     (let c = NewQUICGoConnection conn; cmd = ffmpeg f in
      case newSender L c e of
        Inl err \<Rightarrow> Done (Some (Some err), None, e)
      | Inr s \<Rightarrow>
          (case Cmd_StdoutPipe X cmd e of
             (Inl err, e1) \<Rightarrow> Done (Some (Some err), Some (snd_session s), e1)
           | (Inr reader, e1) \<Rightarrow>
               (case Cmd_Start X cmd e1 of
                  (Some err, e2) \<Rightarrow> Done (Some (Some err), Some (snd_session s), e2)
                | (None, e2) \<Rightarrow>
                    (case newIVFFrameReader I reader of
                       Inl err \<Rightarrow> Done (Some (Some err), Some (snd_session s), e2)
                     | Inr fr \<Rightarrow>
                         (case rtp_NewPacketizer X 1200 96 1 ''VP8'' 90000 e2 of
                            (z, e3) \<Rightarrow>
                              bind_outcome
                                (send L V R c 0 (ivf_reads I n fr) (Mode f)
                                   \<lparr>snd_session = snd_session s, snd_streams = (\<lambda>_. None), snd_next = 0,
                                    snd_packetizer = z, snd_quic = e3\<rparr>)
                                (\<lambda>(res, w).
                                  case res of
                                    None \<Rightarrow> Done (None, Some (snd_session w), snd_quic w)
                                  | Some (Some err) \<Rightarrow>
                                      (case Process_Kill X cmd (snd_quic w) of
                                         (ke, e4) \<Rightarrow> Done (Some ke, Some (snd_session w), e4))
                                  | Some None \<Rightarrow>
                                      bind_outcome (sender_Close (deref_stream w) cr \<lparr>snd_session = snd_session w\<rparr>)
                                        (\<lambda>(err, s', _).
                                          if err \<noteq> None then Done (Some err, Some (snd_session s'), snd_quic w)
                                          else (case Cmd_Wait X cmd (snd_quic w) of
                                                  (we, e4) \<Rightarrow> Done (Some we, Some (snd_session s'), e4)))))))))"

definition ffplay :: cmd where
  "ffplay = [''ffplay'', ''-v'', ''debug'', ''-'']"

text \<open>
  \<open>runReceiver\<close>, over a schedule of what the session does meanwhile. The deferred calls run at the end,
  the last one first: ffplay is killed, then the session is closed.
\<close>

definition runReceiver_deferred ::
  "('e, 'r, 'x, 'z) processes \<Rightarrow> (nat \<Rightarrow> RTPSendStream) \<Rightarrow> close_results \<Rightarrow> cmd option \<Rightarrow>
     goerror option option \<times> receiver \<Rightarrow> 'e \<Rightarrow> (goerror option option \<times> receiver \<times> 'e) outcome" where
  "runReceiver_deferred X deref cr play = (\<lambda>(res, r) e.
     if res = None then Done (None, r, e)
     else (let e' = (case play of None \<Rightarrow> e | Some cmd \<Rightarrow> snd (Process_Kill X cmd e)) in
           bind_outcome (receiver_Close deref cr r) (\<lambda>(_, r', _). Done (res, r', e'))))"

definition runReceiver ::
  "('e, 'c, 's) quic_go \<Rightarrow> varint_lib \<Rightarrow> ('p, 'j, 'w, 'x) media \<Rightarrow> ('e, 'r, 'x, 'z) processes \<Rightarrow>
     (nat \<Rightarrow> RTPSendStream) \<Rightarrow> close_results \<Rightarrow> turn list \<Rightarrow> flags \<Rightarrow> 'c \<Rightarrow> 'e \<Rightarrow>
     (goerror option option \<times> 'e) outcome" where
  "runReceiver L V M X deref cr turns f conn e =
     (case newReceiver L (NewQUICGoConnection conn) e of
        Inl err \<Rightarrow> Done (Some (Some err), e)
      | Inr r \<Rightarrow>
          (let close = (\<lambda>play res e. bind_outcome (runReceiver_deferred X deref cr play res e)
                 (\<lambda>(err, _, e'). Done (err, e')))
           in if 0 < length (Destination f) then
                (case newFileWriter M (Destination f) (Codec f) of
                   Inl err \<Rightarrow> close None (Some (Some err), r) e
                 | Inr writer \<Rightarrow>
                     bind_outcome (receive V (fileWriter_wc M) 0 turns r writer) (\<lambda>(res, r', _).
                       close None (res, r') e))
              else
                (case Cmd_StdinPipe X ffplay e of
                   (Inl err, e1) \<Rightarrow> close None (Some (Some err), r) e1
                 | (Inr stdout, e1) \<Rightarrow>
                     (case Cmd_Start X ffplay e1 of
                        (Some err, e2) \<Rightarrow> close None (Some (Some err), r) e2
                      | (None, e2) \<Rightarrow>
                          (case newIVFWriterWith M (pipe_Write X) stdout (Codec f) of
                             Inl err \<Rightarrow> close (Some ffplay) (Some (Some err), r) e2
                           | Inr writer \<Rightarrow>
                               bind_outcome (receive V (fileWriter_wc M) 0 turns r writer) (\<lambda>(res, r', _).
                                 close (Some ffplay) (res, r') e2))))))"

text \<open>\<open>setupAndRun\<close>: the deferred closing of the key log, if there is one, runs at every return behind it.\<close>

definition setupAndRun ::
  "('e, 'c, 's) quic_go \<Rightarrow> varint_lib \<Rightarrow> ('z, 'p) rtp \<Rightarrow> ('iv, 'h, 'fh, 'r) ivf \<Rightarrow> ('p, 'j, 'w, 'x) media \<Rightarrow>
     ('e, 'k, 'crt, 'key, 'l, 'c) network \<Rightarrow> ('e, 'r, 'x, 'z) processes \<Rightarrow> (nat \<Rightarrow> RTPSendStream) \<Rightarrow>
     close_results \<Rightarrow> nat \<Rightarrow> turn list \<Rightarrow> cmdline \<Rightarrow> 'e \<Rightarrow> (goerror option option \<times> 'e) outcome" where
  "setupAndRun L V R I M W X deref cr n turns cl e =
     (let f = parseFlags cl in
      case getSSLKeyLog W e of
        (Inl err, e1) \<Rightarrow> Done (Some (Some err), e1)
      | (Inr keyLog, e1) \<Rightarrow>
          (case json_Marshal W f of
             Inl err \<Rightarrow> Done (Some (Some err), e1)
           | Inr flagsJSON \<Rightarrow>
               (let close = (\<lambda>(res, e). case keyLog of
                      Some k \<Rightarrow> Done (res, if res = None then e else snd (file_Close W k e))
                    | None \<Rightarrow> Done (res, e))
                in bind_outcome
                     (bind_outcome (connect W f keyLog e1) (\<lambda>(res, e2).
                        case res of
                          Inl err \<Rightarrow> Done (Some (Some err), e2)
                        | Inr conn \<Rightarrow>
                            if Send f then
                              bind_outcome (runSender L V R I X cr n f conn e2) (\<lambda>(err, _, e3). Done (err, e3))
                            else runReceiver L V M X deref cr turns f conn e2))
                     close)))"

text \<open>\<open>main\<close> ends with status 1 by \<open>log.Fatal\<close> for an error, and with 0 behind \<open>BYE\<close> otherwise.\<close>

definition main_status :: "goerror option \<Rightarrow> nat" where
  "main_status err = (if err \<noteq> None then 1 else 0)"

definition main ::
  "('e, 'c, 's) quic_go \<Rightarrow> varint_lib \<Rightarrow> ('z, 'p) rtp \<Rightarrow> ('iv, 'h, 'fh, 'r) ivf \<Rightarrow> ('p, 'j, 'w, 'x) media \<Rightarrow>
     ('e, 'k, 'crt, 'key, 'l, 'c) network \<Rightarrow> ('e, 'r, 'x, 'z) processes \<Rightarrow> (nat \<Rightarrow> RTPSendStream) \<Rightarrow>
     close_results \<Rightarrow> nat \<Rightarrow> turn list \<Rightarrow> cmdline \<Rightarrow> 'e \<Rightarrow> (nat option \<times> 'e) outcome" where
  "main L V R I M W X deref cr n turns cl e =
     bind_outcome (setupAndRun L V R I M W X deref cr n turns cl e) (\<lambda>(res, e'). Done (map_option main_status res, e'))"

section \<open>A buffered writer with record separators\<close>

text \<open>
  \<open>bufio.Writer\<close>: the buffer of \<open>bw_size\<close> bytes, its content, the first error, and the state of the writer
  below. A writer below that takes nothing of a long write without an error keeps \<open>Write\<close> in its loop.
\<close>

record 'x bufio_Writer =
  bw_size :: nat
  bw_buf :: "byte list"
  bw_err :: "goerror option"
  bw_wr :: 'x

definition bufio_Flush ::
  "(byte list \<Rightarrow> 'x \<Rightarrow> write_result \<times> 'x) \<Rightarrow> 'x bufio_Writer \<Rightarrow> goerror option \<times> 'x bufio_Writer" where
  "bufio_Flush wr b =
     (if bw_err b \<noteq> None then (bw_err b, b)
      else if bw_buf b = [] then (None, b)
      else (case wr (bw_buf b) (bw_wr b) of
              ((n, err), x) \<Rightarrow>
                (let err = (if n < int (length (bw_buf b)) \<and> err = None then Some io_ErrShortWrite else err) in
                 if err \<noteq> None then (err, b\<lparr>bw_buf := drop (nat n) (bw_buf b), bw_err := err, bw_wr := x\<rparr>)
                 else (None, b\<lparr>bw_buf := [], bw_wr := x\<rparr>))))"

partial_function (option) bufio_Write_loop ::
  "(byte list \<Rightarrow> 'x \<Rightarrow> write_result \<times> 'x) \<Rightarrow> int \<Rightarrow> byte list \<Rightarrow> 'x bufio_Writer \<Rightarrow> (write_result \<times> 'x bufio_Writer) option" where
  "bufio_Write_loop wr nn p b =
     (let avail = bw_size b - length (bw_buf b) in
      if avail < length p \<and> bw_err b = None then
        if bw_buf b = [] then
          (case wr p (bw_wr b) of
             ((n, err), x) \<Rightarrow> bufio_Write_loop wr (nn + n) (drop (nat n) p) (b\<lparr>bw_err := err, bw_wr := x\<rparr>))
        else
          bufio_Write_loop wr (nn + int avail) (drop avail p)
            (snd (bufio_Flush wr (b\<lparr>bw_buf := bw_buf b @ take avail p\<rparr>)))
      else if bw_err b \<noteq> None then Some ((nn, bw_err b), b)
      else Some ((nn + int (length p), None), b\<lparr>bw_buf := bw_buf b @ p\<rparr>))"

definition bufio_Write ::
  "(byte list \<Rightarrow> 'x \<Rightarrow> write_result \<times> 'x) \<Rightarrow> byte list \<Rightarrow> 'x bufio_Writer \<Rightarrow> (write_result \<times> 'x bufio_Writer) option" where
  "bufio_Write wr p b = bufio_Write_loop wr 0 p b"

text \<open>\<open>bufferedWriteCloser\<close> over the writer \<open>wr\<close> and the closer \<open>cl\<close>.\<close>

record 'x bufferedWriteCloser =
  bwc_Writer :: "'x bufio_Writer"
  bwc_Closer :: "'x \<Rightarrow> goerror option \<times> 'x"

definition NewBufferedWriteCloser ::
  "'x bufio_Writer \<Rightarrow> ('x \<Rightarrow> goerror option \<times> 'x) \<Rightarrow> 'x bufferedWriteCloser" where
  "NewBufferedWriteCloser writer closer = \<lparr>bwc_Writer = writer, bwc_Closer = closer\<rparr>"

definition bufferedWriteCloser_Write ::
  "(byte list \<Rightarrow> 'x \<Rightarrow> write_result \<times> 'x) \<Rightarrow> byte list \<Rightarrow> 'x bufferedWriteCloser \<Rightarrow>
     (write_result \<times> 'x bufferedWriteCloser) option" where
  "bufferedWriteCloser_Write wr p h =
     map_option (\<lambda>(res, b). (res, h\<lparr>bwc_Writer := b\<rparr>)) (bufio_Write wr ([0x1e] @ p) (bwc_Writer h))"

definition bufferedWriteCloser_Close ::
  "(byte list \<Rightarrow> 'x \<Rightarrow> write_result \<times> 'x) \<Rightarrow> 'x bufferedWriteCloser \<Rightarrow> goerror option \<times> 'x bufferedWriteCloser" where
  "bufferedWriteCloser_Close wr h =
     (case bufio_Flush wr (bwc_Writer h) of
        (Some err, b) \<Rightarrow> (Some err, h\<lparr>bwc_Writer := b\<rparr>)
      | (None, b) \<Rightarrow>
          (case bwc_Closer h (bw_wr b) of (e, x) \<Rightarrow> (e, h\<lparr>bwc_Writer := b\<lparr>bw_wr := x\<rparr>\<rparr>)))"

text \<open>A writer below that takes everything; \<open>out\<close> are the bytes it has.\<close>

definition sink :: "(byte list \<Rightarrow> 'x \<Rightarrow> write_result \<times> 'x) \<Rightarrow> ('x \<Rightarrow> byte list) \<Rightarrow> bool" where
  "sink wr out \<longleftrightarrow> (\<forall>p x. \<exists>x'. wr p x = ((int (length p), None), x') \<and> out x' = out x @ p)"

definition bw_all :: "('x \<Rightarrow> byte list) \<Rightarrow> 'x bufio_Writer \<Rightarrow> byte list" where
  "bw_all out b = out (bw_wr b) @ bw_buf b"

lemma sinkD:
  assumes "sink wr out"
  obtains x' where "wr p x = ((int (length p), None), x')" and "out x' = out x @ p"
  using assms by (auto simp: sink_def)

lemma bufio_Flush_all:
  assumes "sink wr out" and "bw_err b = None"
  obtains b' where "bufio_Flush wr b = (None, b')" and "bw_buf b' = []" and "bw_err b' = None"
    and "bw_size b' = bw_size b" and "bw_all out b' = bw_all out b"
proof (cases "bw_buf b = []")
  case True
  then show thesis
    using assms(2) by (intro that [of b]) (simp_all add: bufio_Flush_def)
next
  case False
  obtain x' where "wr (bw_buf b) (bw_wr b) = ((int (length (bw_buf b)), None), x')"
    "out x' = out (bw_wr b) @ bw_buf b"
    by (rule sinkD [OF assms(1)])
  then show thesis
    using assms(2) False
    by (intro that [of "b\<lparr>bw_buf := [], bw_wr := x'\<rparr>"]) (simp_all add: bufio_Flush_def bw_all_def)
qed

text \<open>The loop makes at most three rounds: fill and flush, write a long rest directly, buffer.\<close>

lemma bufio_Write_loop_short:
  assumes "bw_err b = None" and "length p \<le> bw_size b - length (bw_buf b)"
  shows "bufio_Write_loop wr nn p b = Some ((nn + int (length p), None), b\<lparr>bw_buf := bw_buf b @ p\<rparr>)"
  using assms by (subst bufio_Write_loop.simps) simp

lemma bufio_Write_loop_empty:
  assumes "sink wr out" and "bw_err b = None" and "bw_buf b = []"
  obtains b' where "bufio_Write_loop wr nn p b = Some ((nn + int (length p), None), b')"
    and "bw_all out b' = bw_all out b @ p" and "bw_err b' = None"
proof (cases "length p \<le> bw_size b")
  case True
  then show thesis
    using bufio_Write_loop_short [OF assms(2)] assms(2,3)
    by (intro that [of "b\<lparr>bw_buf := bw_buf b @ p\<rparr>"]) (simp_all add: bw_all_def)
next
  case False
  obtain x' where x': "wr p (bw_wr b) = ((int (length p), None), x')" "out x' = out (bw_wr b) @ p"
    by (rule sinkD [OF assms(1)])
  let ?b = "b\<lparr>bw_err := None, bw_wr := x'\<rparr>"
  have "bufio_Write_loop wr nn p b = bufio_Write_loop wr (nn + int (length p)) [] ?b"
    using assms(2,3) False x'(1) by (subst bufio_Write_loop.simps) simp
  also have "\<dots> = Some ((nn + int (length p), None), ?b)"
    using assms(3) by (subst bufio_Write_loop.simps) simp
  finally show thesis
    using assms(3) x'(2) by (intro that [of ?b]) (simp_all add: bw_all_def)
qed

lemma bufio_Write_all:
  assumes "sink wr out" and "bw_err b = None"
  obtains b' where "bufio_Write wr p b = Some ((int (length p), None), b')"
    and "bw_all out b' = bw_all out b @ p" and "bw_err b' = None"
proof -
  define avail where "avail = bw_size b - length (bw_buf b)"
  consider (short) "length p \<le> avail" | (empty) "bw_buf b = []" | (flush) "avail < length p" "bw_buf b \<noteq> []"
    by linarith
  then show thesis
  proof cases
    case short
    then show thesis
      using bufio_Write_loop_short [OF assms(2)] assms(2)
      by (intro that [of "b\<lparr>bw_buf := bw_buf b @ p\<rparr>"]) (simp_all add: bufio_Write_def bw_all_def avail_def)
  next
    case empty
    obtain b' where "bufio_Write_loop wr 0 p b = Some ((0 + int (length p), None), b')"
      "bw_all out b' = bw_all out b @ p" "bw_err b' = None"
      by (rule bufio_Write_loop_empty [OF assms empty])
    then show thesis
      by (intro that) (simp_all add: bufio_Write_def)
  next
    case flush
    let ?b = "b\<lparr>bw_buf := bw_buf b @ take avail p\<rparr>"
    obtain b1 where b1: "bufio_Flush wr ?b = (None, b1)" "bw_buf b1 = []" "bw_err b1 = None"
      "bw_all out b1 = bw_all out ?b"
      by (rule bufio_Flush_all [OF assms(1), of ?b]) (use assms(2) that in auto)
    obtain b' where b': "bufio_Write_loop wr (int avail) (drop avail p) b1
        = Some ((int avail + int (length (drop avail p)), None), b')"
      "bw_all out b' = bw_all out b1 @ drop avail p" "bw_err b' = None"
      by (rule bufio_Write_loop_empty [OF assms(1) b1(3,2)])
    have "bufio_Write_loop wr 0 p b = bufio_Write_loop wr (int avail) (drop avail p) b1"
      using flush assms(2) b1(1) by (subst bufio_Write_loop.simps) (simp add: avail_def Let_def)
    moreover have "bw_all out ?b = bw_all out b @ take avail p"
      by (simp add: bw_all_def)
    ultimately show thesis
      using b' b1(4) flush(1) by (intro that [of b']) (simp_all add: bufio_Write_def)
  qed
qed

section \<open>Properties\<close>

text \<open>
  The writer with record separators puts the separator and the record out, and returns one more than
  the length of the record: more than \<open>io.Writer\<close> allows, so that \<open>io.Copy\<close> into it fails with
  \<open>errInvalidWrite\<close> although everything was written.
\<close>

lemma buffered_write_count:
  assumes "sink wr out" and "bw_err (bwc_Writer h) = None"
  shows "\<exists>h'. bufferedWriteCloser_Write wr p h = Some ((int (length p) + 1, None), h') \<and>
    bw_all out (bwc_Writer h') = bw_all out (bwc_Writer h) @ [0x1e] @ p \<and>
    io_Copy_write \<lparr>wc_Write = (\<lambda>p h. the (bufferedWriteCloser_Write wr p h)), wc_Close = bufferedWriteCloser_Close wr\<rparr> p h
      = (Some io_errInvalidWrite, h')"
proof -
  obtain b where b: "bufio_Write wr ([0x1e] @ p) (bwc_Writer h) = Some ((int (length ([0x1e] @ p)), None), b)"
    "bw_all out b = bw_all out (bwc_Writer h) @ [0x1e] @ p"
    by (rule bufio_Write_all [OF assms])
  then have "bufferedWriteCloser_Write wr p h = Some ((int (length p) + 1, None), h\<lparr>bwc_Writer := b\<rparr>)"
    by (simp add: bufferedWriteCloser_Write_def add.commute)
  then show ?thesis
    using b(2) by (simp add: io_Copy_write_def)
qed

text \<open>Without a certificate file and without a new certificate a server panics.\<close>

lemma connect_panics_iff:
  "(\<exists>m. connect W f keyLog e = Panic m) \<longleftrightarrow>
     Server f \<and> fst (fst (generateTLSConfig W (Cert f) (Key f) keyLog e)) = None"
  by (auto simp: connect_def Let_def split: prod.splits sum.splits option.splits)

lemma generateTLSConfig_None_iff:
  "fst (fst (generateTLSConfig W cert key keyLog e)) = None \<longleftrightarrow>
     (\<exists>err e1 err'. tls_LoadX509KeyPair W cert key e = (Inl err, e1) \<and>
        snd (fst (generateTLSConfigWithNewCert W keyLog e1)) = Some err')"
  by (auto simp: generateTLSConfig_def generateTLSConfigWithCertAndKey_def generateTLSConfigWithNewCert_def Let_def
      split: prod.splits sum.splits)

text \<open>
  A sender that fails is not noticed: when \<open>send\<close> returns an error, \<open>runSender\<close> returns what killing ffmpeg
  returned, nil if that worked, and leaves the session open.
\<close>

lemma run_sender_error:
  assumes "newSender L (NewQUICGoConnection conn) e = Inr s"
    and "Cmd_StdoutPipe X (ffmpeg f) e = (Inr reader, e1)" and "Cmd_Start X (ffmpeg f) e1 = (None, e2)"
    and "newIVFFrameReader I reader = Inr fr" and "rtp_NewPacketizer X 1200 96 1 ''VP8'' 90000 e2 = (z, e3)"
    and "send L V R (NewQUICGoConnection conn) 0 (ivf_reads I n fr) (Mode f)
      \<lparr>snd_session = snd_session s, snd_streams = (\<lambda>_. None), snd_next = 0, snd_packetizer = z, snd_quic = e3\<rparr>
      = Done (Some (Some err), w)"
    and "Process_Kill X (ffmpeg f) (snd_quic w) = (None, e4)"
  shows "runSender L V R I X cr n f conn e = Done (Some None, Some (snd_session w), e4)"
  using assms by (simp add: runSender_def Let_def)

lemma newReceiver_ok: "newReceiver L c e = Inr r \<Longrightarrow> session_ok (rcv_session r)"
  using session_init_ok [of "Some (quicgo_conn L c e)" True "[]"]
  by (auto simp: newReceiver_def split: sum.splits)

text \<open>The deferred calls do not change the result.\<close>

lemma runReceiver_deferred_result:
  assumes "session_ok (rcv_session r)"
  shows "\<exists>r' e'. runReceiver_deferred X deref cr play (res, r) e = Done (res, r', e')"
proof -
  obtain err s es where "Session_Close deref cr (rcv_session r) = Done (err, s, es)"
    using Session_Close_ok [OF assms] by blast
  then show ?thesis
    by (simp add: runReceiver_deferred_def receiver_Close_def Let_def)
qed

context quicvarint
begin

lemma runReceiver_not_nil:
  assumes "turns_ok turns"
  shows "\<exists>res e'. runReceiver L V M X deref cr turns f conn e = Done (res, e') \<and> res \<noteq> Some None"
proof (cases "newReceiver L (NewQUICGoConnection conn) e")
  case (Inl err)
  then show ?thesis
    by (simp add: runReceiver_def)
next
  case (Inr r)
  note ok = newReceiver_ok [OF Inr]
  define close where "close = (\<lambda>play res e. bind_outcome (runReceiver_deferred X deref cr play res e)
                 (\<lambda>(err, _, e'). Done (err, e')))"
  have fail: "\<exists>res e'. close play (Some (Some err), r) e = Done (res, e') \<and> res \<noteq> Some None" for play err e
    using runReceiver_deferred_result [OF ok, of X deref cr play "Some (Some err)" e] by (auto simp: close_def)
  have copy: "\<exists>res e'. bind_outcome (receive V (fileWriter_wc M) 0 turns r writer) (\<lambda>(res, r', _). close play (res, r') e)
      = Done (res, e') \<and> res \<noteq> Some None" for play writer e
  proof -
    obtain res r' w' where rc: "receive V (fileWriter_wc M) 0 turns r writer = Done (res, r', w')"
      "session_ok (rcv_session r')" "res \<noteq> Some None"
      using receive_result [OF ok assms, of "fileWriter_wc M" 0 writer] by blast
    then show ?thesis
      using runReceiver_deferred_result [OF rc(2), of X deref cr play res e] by (auto simp: close_def)
  qed
  show ?thesis
    unfolding runReceiver_def Inr sum.case Let_def close_def [symmetric]
    using fail copy by (auto split: sum.split prod.split option.split)
qed

end

text \<open>C39: the receiving program never ends well. Whatever arrives and however the session ends, the program
  goes on waiting or ends with a status other than zero, since \<open>receive\<close> reports even the closing of the
  session as an error; it panics only if it is a server that has no certificate.\<close>

theorem receiver_exit_status:
  assumes "quicvarint V" and "turns_ok turns" and "\<not> Send (parseFlags cl)"
  shows "case main L V R I M W X deref cr n turns cl e of
      Done (status, e') \<Rightarrow> status \<noteq> Some 0
    | Panic m \<Rightarrow> Server (parseFlags cl) \<and>
        (\<exists>keyLog e1. fst (fst (generateTLSConfig W (Cert (parseFlags cl)) (Key (parseFlags cl)) keyLog e1)) = None)"
proof -
  let ?f = "parseFlags cl"
  obtain k e1 where k: "getSSLKeyLog W e = (k, e1)"
    by (cases "getSSLKeyLog W e")
  have run: "\<exists>res e'. runReceiver L V M X deref cr turns ?f conn e2 = Done (res, e') \<and> res \<noteq> Some None" for conn e2
    by (rule quicvarint.runReceiver_not_nil [OF assms(1,2)])
  consider (fails) err where "k = Inl err \<or> json_Marshal W ?f = Inl err"
    | (panics) keyLog json m where "k = Inr keyLog" "json_Marshal W ?f = Inr json" "connect W ?f keyLog e1 = Panic m"
    | (unconnected) keyLog json err e2 where "k = Inr keyLog" "json_Marshal W ?f = Inr json"
        "connect W ?f keyLog e1 = Done (Inl err, e2)"
    | (connected) keyLog json conn e2 where "k = Inr keyLog" "json_Marshal W ?f = Inr json"
        "connect W ?f keyLog e1 = Done (Inr conn, e2)"
    by (metis outcome.exhaust old.prod.exhaust old.sum.exhaust)
  then show ?thesis
  proof cases
    case fails
    then show ?thesis
      using k by (cases k) (auto simp: main_def setupAndRun_def main_status_def Let_def split: sum.split)
  next
    case panics
    then have "Server ?f \<and> fst (fst (generateTLSConfig W (Cert ?f) (Key ?f) keyLog e1)) = None"
      using connect_panics_iff [of W ?f keyLog e1] by auto
    then show ?thesis
      using k panics by (auto simp: main_def setupAndRun_def Let_def)
  next
    case unconnected
    then show ?thesis
      using k by (auto simp: main_def setupAndRun_def main_status_def Let_def split: option.split)
  next
    case connected
    obtain res e3 where "runReceiver L V M X deref cr turns ?f conn e2 = Done (res, e3)" "res \<noteq> Some None"
      using run [of conn e2] by blast
    then show ?thesis
      using k connected assms(3) by (auto simp: main_def setupAndRun_def main_status_def Let_def split: option.split)
  qed
qed

text \<open>A world in which everything works, for concrete instances.\<close>

definition calm_network :: "(unit, unit, unit, unit, unit, unit) network" where
  "calm_network =
     \<lparr>os_Getenv = (\<lambda>_ _. ''''), os_Create = (\<lambda>_ e. (Inr (), e)), file_Close = (\<lambda>_ e. (None, e)),
      json_Marshal = (\<lambda>_. Inr []), tls_LoadX509KeyPair = (\<lambda>_ _ e. (Inr (), e)),
      rsa_GenerateKey = (\<lambda>_ e. (Inr (), e)), x509_CreateCertificate = (\<lambda>_ _ e. (Inr [], e)),
      x509_MarshalPKCS1PrivateKey = (\<lambda>_. []), pem_EncodeToMemory = (\<lambda>_ b. b), tls_X509KeyPair = (\<lambda>_ _. Inr ()),
      quic_ListenAddr = (\<lambda>_ _ _ e. (Inr (), e)), Listener_Accept = (\<lambda>_ e. (Inr (), e)),
      quic_DialAddr = (\<lambda>_ _ _ e. (Inr (), e))\<rparr>"

definition calm_processes :: "(unit, unit, unit, unit) processes" where
  "calm_processes =
     \<lparr>Cmd_StdoutPipe = (\<lambda>_ e. (Inr (), e)), Cmd_StdinPipe = (\<lambda>_ e. (Inr (), e)),
      pipe_Write = (\<lambda>b x. ((int (length b), None), x)), Cmd_Start = (\<lambda>_ e. (None, e)), Cmd_Wait = (\<lambda>_ e. (None, e)),
      Process_Kill = (\<lambda>_ e. (None, e)), rtp_NewPacketizer = (\<lambda>_ _ _ _ _ e. ((), e))\<rparr>"

definition no_args :: cmdline where
  "no_args = \<lparr>cl_Bool = (\<lambda>_. None), cl_Int = (\<lambda>_. None), cl_String = (\<lambda>_. None)\<rparr>"

definition calm_quic :: "(unit, unit, int) quic_go" where
  "calm_quic =
     \<lparr>Stream_StreamID = (\<lambda>s. s), Stream_CancelRead = (\<lambda>s c q. q), Stream_Read = (\<lambda>s n q. (([], Some io_EOF), q)),
      Stream_Write = (\<lambda>s b q. ((int (length b), None), q)), Stream_Close = (\<lambda>s q. (None, q)),
      Stream_CancelWrite = (\<lambda>s c q. q), Conn_SendDatagram = (\<lambda>c b q. (None, q)),
      Conn_ReceiveDatagram = (\<lambda>c ctx q. (Inl io_EOF, q)), Conn_OpenUniStreamSync = (\<lambda>c ctx q. (Inr 2, q)),
      Conn_AcceptUniStream = (\<lambda>c ctx q. (Inl io_EOF, q)), Conn_QlogTrace = (\<lambda>c q. None),
      Conn_CloseWithError = (\<lambda>c code why q. (None, q))\<rparr>"

definition empty_ivf :: "(unit, unit, unit, unit) ivf" where
  "empty_ivf = \<lparr>ivfreader_NewWith = (\<lambda>_. Inr ((), ())), ParseNextFrame = (\<lambda>iv. (([], (), Some io_EOF), iv))\<rparr>"

theorem receiver_exit_status_witness:
  "case main calm_quic rfc9000 whole_frames empty_ivf memory_media calm_network calm_processes
      (out_deref sample_world) (out_close sample_world) 0 [Some (sample_world, OpClose), None] no_args () of
     Done (status, e') \<Rightarrow> status \<noteq> Some 0 | Panic m \<Rightarrow> False"
proof -
  have "\<not> Send (parseFlags no_args)" "\<not> Server (parseFlags no_args)"
    by (simp_all add: parseFlags_def no_args_def flag_defs)
  then show ?thesis
    using receiver_exit_status [OF rfc.quicvarint_axioms, where turns = "[Some (sample_world, OpClose), None]"
        and cl = no_args and L = calm_quic and R = whole_frames and I = empty_ivf and M = memory_media
        and W = calm_network and X = calm_processes and deref = "out_deref sample_world"
        and cr = "out_close sample_world" and n = 0 and e = "()"]
    by (auto split: outcome.splits)
qed

end
