(* ===== verification/Save_To_Disk.thy ===== *)
theory Save_To_Disk
  imports Interop_Main
begin

text \<open>
  \<open>examples/savetodisk/main.go\<close>: a server that writes the RTP packets of flow 0 to a file. An error before
  the loop, and a packet that cannot be parsed or written, is a panic of the program.
\<close>

section \<open>The program\<close>

text \<open>The configuration without a key log.\<close>

definition disk_generateTLSConfigWithCertAndKey ::
  "('e, 'k, 'crt, 'key, 'l, 'c) network \<Rightarrow> string \<Rightarrow> string \<Rightarrow> 'e \<Rightarrow>
     (goerror + ('crt, 'k) tls_Config) \<times> 'e" where
  "disk_generateTLSConfigWithCertAndKey W certFile keyFile e =
     (case tls_LoadX509KeyPair W certFile keyFile e of
        (Inl err, e') \<Rightarrow> (Inl err, e')
      | (Inr cert, e') \<Rightarrow>
          (Inr \<lparr>Certificates = [cert], NextProtos = [''roq-09''], KeyLogWriter = None, InsecureSkipVerify = False\<rparr>, e'))"

text \<open>
  The body of the loop, behind \<open>Read\<close>: an error of \<open>Read\<close> is logged and ends the program; a packet is
  parsed and written. The result is the logged error.
\<close>

definition save_round ::
  "('p, 'j, 'w, 'x) media \<Rightarrow> read_result \<Rightarrow> 'w \<Rightarrow> (goerror option \<times> 'w) outcome" where
  "save_round M = (\<lambda>(n, err, buf) w.
     case err of
       Some er \<Rightarrow> Done (Some er, w)
     | None \<Rightarrow>
         (case rtp_Unmarshal M (take (nat n) buf) of
            Inl er \<Rightarrow> Panic ''Unmarshal''
          | Inr pkt \<Rightarrow>
              (case rw_WriteRTP M pkt w of
                 (Some er, w') \<Rightarrow> Panic ''WriteRTP''
               | (None, w') \<Rightarrow> Done (None, w'))))"

definition save_buffer :: nat where
  "save_buffer = 4096"

text \<open>
  From the session on: the flow, the file, the loop, and the deferred calls that close the file, the flow
  and the session. The result is the logged error, \<open>None\<close> while the program runs.
\<close>

definition save_packets ::
  "varint_lib \<Rightarrow> ('p, 'j, 'w, 'x) media \<Rightarrow> (nat \<Rightarrow> RTPSendStream) \<Rightarrow> close_results \<Rightarrow> turn list \<Rightarrow> Session \<Rightarrow>
     (goerror option \<times> Session \<times> 'w) outcome" where
  "save_packets V M deref cr turns session =
     bind_outcome (NewReceiveFlow session 0) (\<lambda>(res, s).
       case res of
         Inl err \<Rightarrow> Panic ''NewReceiveFlow''
       | Inr flow \<Rightarrow>
           (case ivfwriter_New M ''output.ivf'' of
              Inl err \<Rightarrow> Panic ''ivfwriter.New''
            | Inr file \<Rightarrow>
                bind_outcome (read_turns V save_buffer (save_round M) flow turns s file) (\<lambda>(err, s1, w).
                  if err = None then Done (None, s1, w)
                  else bind_outcome (close_receive_flow flow s1) (\<lambda>(s2, _).
                         bind_outcome (Session_Close deref cr s2) (\<lambda>(_, s3, _).
                           Done (err, s3, snd (rw_Close M w)))))))"

definition disk_save_main ::
  "('e, 'c, 's) quic_go \<Rightarrow> varint_lib \<Rightarrow> ('p, 'j, 'w, 'x) media \<Rightarrow> ('e, 'k, 'crt, 'key, 'l, 'c) network \<Rightarrow>
     (nat \<Rightarrow> RTPSendStream) \<Rightarrow> close_results \<Rightarrow> turn list \<Rightarrow> cmdline \<Rightarrow> 'e \<Rightarrow>
     (goerror option \<times> Session \<times> 'w) outcome" where
  "disk_save_main L V M W deref cr turns cl e =
     (let cert = flag_String cl ''cert'' ''cert.pem'';
          key = flag_String cl ''key'' ''key.pem'';
          addr = flag_String cl ''addr'' ''localhost:4443''
      in case disk_generateTLSConfigWithCertAndKey W cert key e of
           (Inl err, e1) \<Rightarrow> Panic ''generateTLSConfigWithCertAndKey''
         | (Inr tlsConfig, e1) \<Rightarrow>
             (case quic_ListenAddr W addr tlsConfig datagram_config e1 of
                (Inl err, e2) \<Rightarrow> Panic ''ListenAddr''
              | (Inr listener, e2) \<Rightarrow>
                  (case Listener_Accept W listener e2 of
                     (Inl err, e3) \<Rightarrow> Panic ''Accept''
                   | (Inr conn, e3) \<Rightarrow>
                       (case NewSession (Some (quicgo_conn L (NewQUICGoConnection conn) e3)) True [] of
                          Inl err \<Rightarrow> Panic ''NewSession''
                        | Inr session \<Rightarrow> save_packets V M deref cr turns session))))"

section \<open>Properties\<close>


definition parses :: "('p, 'j, 'w, 'x) media \<Rightarrow> byte list \<Rightarrow> bool" where
  "parses M b \<longleftrightarrow> (case rtp_Unmarshal M b of Inl _ \<Rightarrow> False | Inr _ \<Rightarrow> True)"






text \<open>
  A peer can make the program panic: a datagram of flow 0 whose payload is not an RTP packet, such as
  one with the flow ID alone.
\<close>

lemma malformed_packet_panics:
  assumes "quicvarint V" and "ivfwriter_New M ''output.ivf'' = Inr file"
    and "session_ok s" and "s_closedErr s = None" and "sm_get (s_receiveFlows s) 0 = None"
    and "map_of (rfb_buffer (s_receiveFlowBuffer s)) 0 = None" and "0 < s_receiveBufferSize s"
    and "\<not> parses M p" and "length p \<le> save_buffer"
  shows "save_packets V M deref cr [Some (w, OpDatagram (vi_enc V 0 @ p)), None] s = Panic ''Unmarshal''"
proof -
  obtain r s1 f where new: "NewReceiveFlow s 0 = Done (Inr r, s1)" "session_ok s1"
    "sm_get (s_receiveFlows s1) 0 = Some r" "st_flow (s_rstore s1) r = Some f"
    and f: "case map_of (rfb_buffer (s_receiveFlowBuffer s)) 0 of
        Some b \<Rightarrow> r = b \<and> st_flow (s_rstore s) r = Some f
      | None \<Rightarrow> newReceiveFlow 0 (s_receiveBufferSize s) (s_qlog s) (Some (s_logger s)) = Done f"
    by (rule NewReceiveFlow_open [OF assms(3-5)]) (rule that)
  have "newReceiveFlow 0 (s_receiveBufferSize s) (s_qlog s) (Some (s_logger s)) = Done f"
    using f assms(6) by simp
  then have u: "undisturbed f" "rf_packets f = []" "rf_cap f = nat (s_receiveBufferSize s)"
    using undisturbed_new rf_new_fields(1,2) by blast+
  have "fits62 0"
    by (simp add: fits62_small)
  then obtain f' es where f': "run_op V w (OpDatagram (vi_enc V 0 @ p)) s1 = Done (with_flow r f' s1, es)"
    "queues f [p] f'"
    using quicvarint.carries_queues [OF assms(1) carries.datagram _ new(2-4) u(1)] by blast
  then have "rf_packets f' = [p]" "undisturbed f'"
    using u assms(7) undisturbed_same [OF u(1)] by (auto simp: queues_def undisturbed_def)
  then obtain f'' where "Read save_buffer f' = Some ((int (length p), None, p), f'')"
    using Read_queued [of f' p "[]" save_buffer] assms(9) by (auto simp: undisturbed_def)
  moreover obtain er where "rtp_Unmarshal M p = Inl er"
    using assms(8) by (auto simp: parses_def split: sum.splits)
  ultimately show ?thesis
    using new(1) assms(2) f'(1) by (simp add: save_packets_def save_round_def st_put_def)
qed

end
