(* ===== verification/Go_Float.thy ===== *)
theory Go_Float
  imports Complex_Main "HOL-Library.Log_Nat"
begin

text \<open>
  The floating-point numbers of Go, as far as the programs use them: non-negative values well inside the
  range of the exponents, where an operation of \<open>float32\<close> or \<open>float64\<close> gives the exact rational result
  rounded to 24 or 53 binary digits, to nearest, ties to even.
\<close>

section \<open>Rounding\<close>

definition round_even :: "rat \<Rightarrow> int" where
  "round_even x =
     (let f = \<lfloor>x\<rfloor>; d = x - of_int f
      in if d < 1 / 2 then f else if 1 / 2 < d then f + 1 else if even f then f else f + 1)"

text \<open>The exponent of a positive number: \<open>2 powi flog2 q \<le> q < 2 powi (flog2 q + 1)\<close>.\<close>

definition flog2 :: "rat \<Rightarrow> int" where
  "flog2 q =
     (let (a, b) = quotient_of q;
          e = bitlen a - bitlen b
      in if 2 powi e \<le> q then e else e - 1)"

definition fl :: "nat \<Rightarrow> rat \<Rightarrow> rat" where
  "fl digits q =
     (if q \<le> 0 then 0
      else (let u = 2 powi (flog2 q - int digits + 1) in of_int (round_even (q / u)) * u))"

abbreviation float32 :: "rat \<Rightarrow> rat" where "float32 \<equiv> fl 24"
abbreviation float64 :: "rat \<Rightarrow> rat" where "float64 \<equiv> fl 53"

section \<open>Error bounds\<close>

lemma round_even_bounds: "x - 1 / 2 \<le> of_int (round_even x)" "of_int (round_even x) \<le> x + 1 / 2"
proof -
  have "of_int \<lfloor>x\<rfloor> \<le> x" "x < of_int \<lfloor>x\<rfloor> + 1"
    by linarith+
  then show "x - 1 / 2 \<le> of_int (round_even x)" "of_int (round_even x) \<le> x + 1 / 2"
    unfolding round_even_def Let_def by (simp_all split: if_split) linarith+
qed

lemma floorlog2_bounds:
  assumes "0 < n"
  shows "2 ^ floorlog 2 n \<le> 2 * n" and "n < 2 ^ floorlog 2 n"
  using floorlog_bounds [of n 2] assms by (cases "floorlog 2 n"; simp)+

text \<open>The exponent is at most the true one, so a significand has all its digits.\<close>

lemma flog2_le:
  assumes "0 < q"
  shows "2 powi flog2 q \<le> q"
proof -
  obtain a b where ab: "quotient_of q = (a, b)"
    by (cases "quotient_of q")
  have b: "0 < b" and q: "q = of_int a / of_int b"
    using quotient_of_denom_pos [OF ab] quotient_of_div [OF ab] by simp_all
  have a: "0 < a"
    using assms b by (simp add: q zero_less_divide_iff)
  define la lb where "la = floorlog 2 (nat a)" and "lb = floorlog 2 (nat b)"
  have la: "2 ^ la \<le> 2 * nat a" and lb: "nat b < 2 ^ lb"
    using floorlog2_bounds [of "nat a"] floorlog2_bounds [of "nat b"] a b by (simp_all add: la_def lb_def)
  have "(2 :: rat) ^ la \<le> 2 * of_int a"
  proof -
    have "of_nat (2 ^ la) \<le> (of_nat (2 * nat a) :: rat)"
      using la by (simp only: of_nat_le_iff)
    then show ?thesis
      using a by simp
  qed
  moreover have "(of_int b :: rat) \<le> 2 ^ lb"
  proof -
    have "of_nat (nat b) \<le> (of_nat (2 ^ lb) :: rat)"
      using lb by (simp only: of_nat_le_iff)
    then show ?thesis
      using b by simp
  qed
  ultimately have "2 ^ la * of_int b \<le> (2 * of_int a) * (2 ^ lb :: rat)"
    using a b by (intro mult_mono) simp_all
  then have "(2 :: rat) powi (int la - int lb - 1) \<le> q"
    using b by (simp add: q power_int_diff power_int_add field_simps)
  then show ?thesis
    by (auto simp: flog2_def ab Let_def la_def lb_def bitlen_def)
qed

lemma fl_bounds:
  assumes "0 \<le> q" and "1 \<le> digits"
  shows "q / 2 \<le> fl digits q" and "fl digits q \<le> 3 / 2 * q"
proof -
  have "q / 2 \<le> fl digits q \<and> fl digits q \<le> 3 / 2 * q"
  proof (cases "q = 0")
    case True
    then show ?thesis by (simp add: fl_def)
  next
    case False
    define u :: rat where "u = 2 powi (flog2 q - int digits + 1)"
    have u: "0 < u"
      by (simp add: u_def)
    have "u \<le> 2 powi flog2 q"
      using assms(2) unfolding u_def by (intro power_int_increasing) simp_all
    then have "u \<le> q"
      using flog2_le [of q] assms(1) False by simp
    then have "1 \<le> q / u"
      using u by (simp add: field_simps)
    then have "q / u / 2 \<le> of_int (round_even (q / u))" "of_int (round_even (q / u)) \<le> 3 / 2 * (q / u)"
      using round_even_bounds [of "q / u"] by simp_all
    note this [THEN mult_right_mono, of u]
    then show ?thesis
      using u assms(1) False by (simp add: fl_def Let_def u_def [symmetric])
  qed
  then show "q / 2 \<le> fl digits q" "fl digits q \<le> 3 / 2 * q"
    by simp_all
qed

lemma fl_nonneg: "0 \<le> q \<Longrightarrow> 1 \<le> digits \<Longrightarrow> 0 \<le> fl digits q"
  using fl_bounds(1) [of q digits] by simp

end
