(* ===== verification/Play_From_Disk.thy ===== *)
theory Play_From_Disk
  imports Save_To_Disk Go_Float
begin

text \<open>
  \<open>examples/playfromdisk/main.go\<close>: a client that reads the frames of a video file at the pace of the file
  and sends each on a stream of its own. Every error is a panic of the program. The pace is computed in
  floating point.
\<close>

section \<open>Pace\<close>

definition clockRate :: int where
  "clockRate = 90000"

record ivf_header =
  FourCC :: string
  TimebaseNumerator :: "32 word"
  TimebaseDenominator :: "32 word"

text \<open>Arithmetic of \<open>int64\<close>, and durations in nanoseconds.\<close>

definition to_int64 :: "int \<Rightarrow> int" where
  "to_int64 x = (x + 2 ^ 63) mod 2 ^ 64 - 2 ^ 63"

text \<open>
  The duration of a frame: the timebase in milliseconds in \<open>float32\<close>, cut off to an integer. A zero
  denominator gives an infinity or not a number, whose conversion to an integer the language leaves open.
\<close>

definition sample_ms :: "32 word \<Rightarrow> 32 word \<Rightarrow> int option" where
  "sample_ms num den =
     (if den = 0 then None
      else Some \<lfloor>float32 (float32 (float32 (of_int (uint num)) / float32 (of_int (uint den))) * 1000)\<rfloor>)"

definition sampleDuration :: "ivf_header \<Rightarrow> int option" where
  "sampleDuration header =
     map_option (\<lambda>ms. to_int64 (1000000 * ms)) (sample_ms (TimebaseNumerator header) (TimebaseDenominator header))"

definition time_NewTicker :: "int \<Rightarrow> int outcome" where
  "time_NewTicker d = (if d \<le> 0 then Panic ''non-positive interval for NewTicker'' else Done d)"

text \<open>\<open>Duration.Seconds\<close> in \<open>float64\<close>, and the number of clock ticks of a frame; a value beyond 32 bits, whose
  conversion the language leaves open, is reduced.\<close>

definition Seconds :: "int \<Rightarrow> rat" where
  "Seconds d = float64 (float64 (of_int (d div 1000000000)) + float64 (float64 (of_int (d mod 1000000000)) / 1000000000))"

definition play_samples :: "int \<Rightarrow> 32 word" where
  "play_samples d = word_of_int \<lfloor>float64 (Seconds d * of_int clockRate)\<rfloor>"

section \<open>The program\<close>

record ('e, 'r) disk =
  os_Open :: "string \<Rightarrow> 'e \<Rightarrow> (goerror + 'r) \<times> 'e"

text \<open>The packets of a frame, written to its stream.\<close>

fun play_packets ::
  "('q, 'c, 's) quic_go \<Rightarrow> varint_lib \<Rightarrow> ('z, 'p) rtp \<Rightarrow> nat \<Rightarrow> 'p list \<Rightarrow> ('q, 's, 'z) sending \<Rightarrow>
     ('q, 's, 'z) sending outcome" where
  "play_packets L V R stream [] w = Done w"
| "play_packets L V R stream (pkt # pkts) w =
     (case Marshal R pkt of
        Inl err \<Rightarrow> Panic ''Marshal''
      | Inr buf \<Rightarrow>
          bind_outcome (stream_write L V stream buf w) (\<lambda>(err, w1).
            if err \<noteq> None then Panic ''WriteRTPBytes'' else play_packets L V R stream pkts w1))"

text \<open>The loop over the ticks, with what reading the frames returns; \<open>False\<close> while it waits for the next tick.\<close>

fun play_loop ::
  "('q, 'c, 's) quic_go \<Rightarrow> varint_lib \<Rightarrow> ('z, 'p) rtp \<Rightarrow> 'c QUICGoConnection \<Rightarrow> nat \<Rightarrow> 32 word \<Rightarrow>
     (goerror + byte list) list \<Rightarrow> ('q, 's, 'z) sending \<Rightarrow> (bool \<times> ('q, 's, 'z) sending) outcome" where
  "play_loop L V R c flow samples [] w = Done (False, w)"
| "play_loop L V R c flow samples (Inl ivfErr # reads) w =
     (if errors_Is ivfErr io_EOF then Done (True, w) else Panic ''ParseNextFrame'')"
| "play_loop L V R c flow samples (Inr fr # reads) w =
     bind_outcome (flow_NewSendStream L c flow w) (\<lambda>(res, w1).
       case res of
         Inl err \<Rightarrow> Panic ''NewSendStream''
       | Inr stream \<Rightarrow>
           (case Packetize R fr samples (snd_packetizer w1) of
              (packets, z) \<Rightarrow>
                bind_outcome (play_packets L V R stream packets (w1\<lparr>snd_packetizer := z\<rparr>)) (\<lambda>w2.
                  bind_outcome (stream_close L stream w2) (\<lambda>(_, w3).
                    play_loop L V R c flow samples reads w3))))"

text \<open>From the session on.\<close>

definition play_frames ::
  "('q, 'c, 's) quic_go \<Rightarrow> varint_lib \<Rightarrow> ('z, 'p) rtp \<Rightarrow> close_results \<Rightarrow> 'c QUICGoConnection \<Rightarrow> ivf_header \<Rightarrow>
     (goerror + byte list) list \<Rightarrow> ('q, 's, 'z) sending \<Rightarrow> (bool \<times> ('q, 's, 'z) sending) outcome" where
  "play_frames L V R cr c header reads w =
     bind_outcome (NewSendFlow V (snd_session w) 0) (\<lambda>(res, s).
       case res of
         Inl err \<Rightarrow> Panic ''NewSendFlow''
       | Inr flow \<Rightarrow>
           (case sampleDuration header of
              None \<Rightarrow> Panic ''unspecified''
            | Some d \<Rightarrow>
                bind_outcome (time_NewTicker d) (\<lambda>_.
                  bind_outcome (play_loop L V R c flow (play_samples d) reads (w\<lparr>snd_session := s\<rparr>)) (\<lambda>(ended, w1).
                    if \<not> ended then Done (False, w1)
                    else bind_outcome (Session_Close (deref_stream w1) cr (snd_session w1)) (\<lambda>(_, s', _).
                           Done (True, w1\<lparr>snd_session := s'\<rparr>))))))"

definition payloader :: "string \<Rightarrow> string option" where
  "payloader fourCC =
     (if fourCC = ''AV01'' then Some ''AV1'' else if fourCC = ''VP90'' then Some ''VP9''
      else if fourCC = ''VP80'' then Some ''VP8'' else None)"

definition MaxInt32 :: int where
  "MaxInt32 = 2 ^ 31 - 1"

definition play_config :: quic_Config where
  "play_config =
     \<lparr>InitialStreamReceiveWindow = MaxInt32, MaxStreamReceiveWindow = MaxInt32,
      InitialConnectionReceiveWindow = MaxInt32, MaxConnectionReceiveWindow = MaxInt32,
      MaxIncomingStreams = MaxInt32, MaxIncomingUniStreams = MaxInt32, EnableDatagrams = True, Tracer = True\<rparr>"

definition disk_play_main ::
  "('e, 'c, 's) quic_go \<Rightarrow> varint_lib \<Rightarrow> ('z, 'p) rtp \<Rightarrow> ('iv, ivf_header, 'fh, 'r) ivf \<Rightarrow>
     ('e, 'k, 'crt, 'key, 'l, 'c) network \<Rightarrow> ('e, 'r, 'x, 'z) processes \<Rightarrow> ('e, 'r) disk \<Rightarrow> close_results \<Rightarrow>
     nat \<Rightarrow> cmdline \<Rightarrow> 'e \<Rightarrow> (bool \<times> ('e, 's, 'z) sending) outcome" where
  "disk_play_main L V R I W X K cr n cl e =
     (let videoFileName = flag_String cl ''file'' ''output.ivf'';
          addr = flag_String cl ''addr'' ''localhost:4443''
      in case os_Open K videoFileName e of
           (Inl err, e1) \<Rightarrow> Panic ''os.Open''
         | (Inr file0, e1) \<Rightarrow>
         (case ivfreader_NewWith I file0 of
            Inl err \<Rightarrow> Panic ''ivfreader.NewWith''
          | Inr (_, header0) \<Rightarrow>
         (case payloader (FourCC header0) of
            None \<Rightarrow> Panic (''Unable to handle FourCC '' @ FourCC header0)
          | Some pl \<Rightarrow>
         (case rtp_NewPacketizer X 1200 96 1 pl (nat clockRate) e1 of
            (z, e2) \<Rightarrow>
         (case os_Open K videoFileName e2 of
            (Inl err, e3) \<Rightarrow> Panic ''os.Open''
          | (Inr file1, e3) \<Rightarrow>
         (case ivfreader_NewWith I file1 of
            Inl err \<Rightarrow> Panic ''ivfreader.NewWith''
          | Inr (iv, header) \<Rightarrow>
         (case quic_DialAddr W addr
                 \<lparr>Certificates = [], NextProtos = [''roq-09''], KeyLogWriter = None, InsecureSkipVerify = True\<rparr>
                 play_config e3 of
            (Inl err, e4) \<Rightarrow> Panic ''DialAddr''
          | (Inr conn, e4) \<Rightarrow>
         (let c = NewQUICGoConnection conn in
          case NewSession (Some (quicgo_conn L c e4)) True [] of
            Inl err \<Rightarrow> Panic ''NewSession''
          | Inr session \<Rightarrow>
              play_frames L V R cr c header (ivf_reads I n \<lparr>ifr_header = header, ifr_reader = iv\<rparr>)
                \<lparr>snd_session = session, snd_streams = (\<lambda>_. None), snd_next = 0, snd_packetizer = z,
                 snd_quic = e4\<rparr>))))))))"

section \<open>Pace in floating point\<close>

text \<open>A frame shorter than a seventh of a millisecond is rounded to no time at all.\<close>

lemma sample_ms_zero:
  assumes "7000 * uint num \<le> uint den" and "den \<noteq> 0"
  shows "sample_ms num den = Some 0"
proof -
  define a b :: rat where "a = of_int (uint num)" and "b = of_int (uint den)"
  have "of_int (7000 * uint num) \<le> (of_int (uint den) :: rat)"
    using assms(1) by (simp only: of_int_le_iff)
  then have ab: "7000 * a \<le> b"
    by (simp add: a_def b_def)
  have "0 \<le> uint num" "0 < uint den"
    using assms(2) uint_ge_0 [of den] unsigned_eq_0_iff [of den] by (simp_all add: less_le)
  then have pos: "0 \<le> a" "0 < b"
    unfolding a_def b_def by (simp_all only: of_int_0_le_iff of_int_0_less_iff)
  have n: "0 \<le> float32 a" "float32 a \<le> 3 / 2 * a" and d: "b / 2 \<le> float32 b"
    using fl_bounds [of a 24] fl_bounds [of b 24] fl_nonneg [of a 24] pos by simp_all
  have "float32 a / float32 b \<le> (3 / 2 * a) / (b / 2)"
    using n d pos by (intro frac_le) simp_all
  also have "\<dots> \<le> 3 / 7000"
    using pos ab by (simp add: field_simps)
  finally have q: "float32 a / float32 b \<le> 3 / 7000" .
  have q0: "0 \<le> float32 a / float32 b"
    using n(1) d pos by (intro divide_nonneg_nonneg) simp_all
  have "float32 (float32 a / float32 b) \<le> 3 / 2 * (3 / 7000)"
    using fl_bounds(2) [OF q0, of 24] q by simp
  then have r: "float32 (float32 a / float32 b) * 1000 \<le> 9 / 14"
    by simp
  have r0: "0 \<le> float32 (float32 a / float32 b) * 1000"
    using fl_nonneg [OF q0, of 24] by simp
  have "float32 (float32 (float32 a / float32 b) * 1000) \<le> 3 / 2 * (9 / 14)"
    using fl_bounds(2) [OF r0, of 24] r by simp
  then have "float32 (float32 (float32 a / float32 b) * 1000) < 1"
    by simp
  moreover have "0 \<le> float32 (float32 (float32 a / float32 b) * 1000)"
    using fl_nonneg [OF r0, of 24] by simp
  ultimately show ?thesis
    using assms(2) by (simp add: sample_ms_def a_def b_def floor_eq_iff)
qed

section \<open>What is sent\<close>

text \<open>Apart from panicking on errors the inner loop is the one of the interop sender.\<close>

lemma play_packets_sendStream:
  "sendStream L V R k pkts w = Done (None, w') \<Longrightarrow> play_packets L V R k pkts w = Done w'"
proof (induction pkts arbitrary: w)
  case (Cons pkt pkts)
  then show ?case
    by (cases "Marshal R pkt"; cases "stream_write L V k (projr (Marshal R pkt)) w")
      (auto split: if_splits)
qed simp






context quicvarint
begin

lemma play_loop_streams:
  assumes "quic_reliable L c net dgrams" and "rtp_ok R" and "flow_ready V i ref net w"
  shows "\<exists>w'. play_loop L V R c ref samples (map Inr frames @ Inl io_EOF # reads) w = Done (True, w') \<and>
    dgrams (snd_quic w') = dgrams (snd_quic w) \<and>
    map snd (net (snd_quic w')) =
      map snd (net (snd_quic w)) @ map (stream_bytes V i) (packetised R samples frames (snd_packetizer w))"
  using assms(3)
proof (induction frames arbitrary: w)
  case (Cons fr frames)
  obtain pkts z where p: "Packetize R fr samples (snd_packetizer w) = (pkts, z)"
    by (cases "Packetize R fr samples (snd_packetizer w)")
  obtain k w1 w2 w3 h where f: "flow_NewSendStream L c ref w = Done (Inr k, w1)"
    "snd_packetizer w1 = snd_packetizer w"
    "sendStream L V R k pkts (w1\<lparr>snd_packetizer := z\<rparr>) = Done (None, w2)" "stream_close L k w2 = Done (None, w3)"
    "flow_ready V i ref net w3" "snd_packetizer w3 = z"
    "net (snd_quic w3) = net (snd_quic w) @ [(h, stream_bytes V i (map (payload R) pkts))]"
    "dgrams (snd_quic w3) = dgrams (snd_quic w)"
    by (rule reliable_stream_of_packets [OF assms(1,2) Cons.prems]) (rule that)
  have "play_packets L V R k pkts (w1\<lparr>snd_packetizer := z\<rparr>) = Done w2"
    using f(3) by (rule play_packets_sendStream)
  then show ?case
    using Cons.IH [OF f(5)] f p by simp
qed simp

end

section \<open>Properties\<close>



text \<open>C40: a file whose frames are shorter than a seventh of a millisecond by its timebase, such as the
  timebase 1/90000 of the RTP clock, makes the program panic: the duration is cut off to whole
  milliseconds and \<open>time.NewTicker\<close> does not take zero.\<close>

theorem play_short_frames_panic:
  assumes "7000 * uint (TimebaseNumerator header) \<le> uint (TimebaseDenominator header)"
    and "TimebaseDenominator header \<noteq> 0" and "quicvarint V"
    and "s_closedErr (snd_session w) = None" and "sm_get (s_sendFlows (snd_session w)) 0 = None"
  shows "play_frames L V R cr c header reads w = Panic ''non-positive interval for NewTicker''"
proof -
  have fits: "fits62 0"
    by (simp add: fits62_small)
  obtain ref s where new: "NewSendFlow V (snd_session w) 0 = Done (Inr ref, s)"
    by (rule quicvarint.NewSendFlow_ready [OF assms(3) fits assms(4,5)])
  have "sampleDuration header = Some 0"
    using sample_ms_zero [OF assms(1,2)] by (simp add: sampleDuration_def to_int64_def)
  then show ?thesis
    using new by (simp add: play_frames_def time_NewTicker_def)
qed

theorem play_short_frames_panic_witness:
  "play_frames memory_quic rfc9000 whole_frames (out_close sample_world) (NewQUICGoConnection ())
     \<lparr>FourCC = ''VP80'', TimebaseNumerator = 1, TimebaseDenominator = 90000\<rparr> [Inr [1, 2], Inl io_EOF]
     \<lparr>snd_session = sample, snd_streams = (\<lambda>_. None), snd_next = 0, snd_packetizer = (), snd_quic = ([], [])\<rparr>
     = Panic ''non-positive interval for NewTicker''"
  by (rule play_short_frames_panic) (simp_all add: sample_fields rfc.quicvarint_axioms)

text \<open>The clock ticks of a frame are cut off, too: 44 ms are 3960 ticks of the RTP clock, and the packetizer
  is told 3959, because the product in \<open>float64\<close> is just below.\<close>

lemma play_samples_cut_off: "play_samples 44000000 = 3959" and "44 * clockRate = 3960 * 1000"
  by code_simp (simp add: clockRate_def)

end
