(* ===== verification/Spec2Isabelle.thy ===== *)
theory Spec2Isabelle
  imports Session_Liveness Flow_Concurrency Chunked_Stream Interop_End_To_End Play_From_Disk
begin

text \<open>
  A verification development for roq, a Go library for RTP over QUIC (RoQ): media packets travel as
  QUIC datagrams or as length-prefixed frames on unidirectional streams, and a flow ID in front says
  which flow they belong to.

  \<^bold>\<open>The program.\<close> A session (\<open>session.go\<close>) owns a QUIC connection, the send flows and receive flows the
  application created, each in a locked map (\<open>sync_map.go\<close>), and a bounded buffer of receive flows for
  flow IDs nobody asked for yet (\<open>receive_flow_buffer.go\<close>). A send flow (\<open>send_flow.go\<close>) writes packets
  as datagrams and opens streams (\<open>rtp_send_stream.go\<close>) that survive short writes. A receive flow
  (\<open>receive_flow.go\<close>) queues packets in pooled buffers for \<open>Read\<close>, with deadlines, and reads its
  streams. Options (\<open>options.go\<close>) configure a session; \<open>qlogger.go\<close> and \<open>qlog/event.go\<close> log events;
  \<open>errors.go\<close> has the error codes; \<open>quic_connection.go\<close> adapts quic-go to the interfaces of the
  session. Three programs under \<open>examples/\<close> use the library: \<open>interop\<close> sends and receives video,
  \<open>playfromdisk\<close> sends a file, \<open>savetodisk\<close> receives one.

  \<^bold>\<open>The model.\<close> Every operation is a function on explicit state. A panic is an outcome of its own
  (\<open>outcome\<close>), Go errors are values of \<open>goerror\<close>, and the calls an operation makes on the connection,
  streams, recorder and logger are a list of \<open>effect\<close>, in order. What the connection and the streams
  return, and which buffer a \<open>sync.Pool\<close> hands out, are arguments, so the theorems hold for every
  such choice. Objects shared by reference (pooled buffers, flows, send streams) live in stores by
  address. 64-bit values are words. Code outside the repository is a parameter: the functions of
  \<open>quicvarint\<close> are \<open>varint_lib\<close>, their documented behaviour is the locale \<open>quicvarint\<close>, and the encoding of
  RFC 9000 is shown to be an instance of it; quic-go is \<open>quic_go\<close>, pion's packages are \<open>rtp\<close>, \<open>media\<close> and
  \<open>ivf\<close>, the operating system and TLS are \<open>network\<close>, \<open>processes\<close> and \<open>disk\<close>. What a property needs of
  them is a hypothesis of its own (\<open>quic_reliable\<close>, \<open>rtp_ok\<close>, \<open>takes_all\<close>, \<open>finite_buffer\<close>,
  \<open>file_takes_all\<close>), with an instance in memory.

  The library:

  \<^item> \<open>Roq_Prelude\<close>: outcomes, errors and the parts of the standard library the sources use (\<open>errors\<close>,
    channels, readers), decimal numerals, lemmas on lists.
  \<^item> \<open>Varint\<close>: the interface of \<open>quicvarint\<close> and the codec of RFC 9000.
  \<^item> \<open>Errors\<close>, \<open>Qlog_Event\<close>, \<open>Qlogger\<close>, \<open>Options\<close>, \<open>Sync_Map\<close>: the files of these names. Shown: an event
    is encoded as its JSON document, up to the first error, and can be read back; configurations are
    valid; the map satisfies the interface \<open>keyed_store\<close>.
  \<^item> \<open>Send_Stream\<close>: \<open>rtp_send_stream.go\<close>. Shown: under any pattern of short writes and errors the bytes on
    the wire are the flow ID and the frames of the accepted packets, and what the counts mean.
  \<^item> \<open>Send_Flow\<close>: \<open>send_flow.go\<close>.
  \<^item> \<open>Receive_Flow\<close>: the state and operations of \<open>receive_flow.go\<close> and the invariant of a flow: who owns
    which buffer, which deadline channels are closed, that a closed flow has a cancelled context.
  \<^item> \<open>Receive_Queue\<close>: the abstract view of a flow, a bounded queue that drops at its end (locales
    \<open>drop_tail_queue\<close> and \<open>fifo_queue\<close>), and that the operations on pooled buffers implement it.
  \<^item> \<open>Read_Stream\<close>: \<open>readStream\<close> queues what the reference \<open>stream_packets\<close> finds in the bytes.
    \<open>Chunked_Stream\<close>: it does not matter in which chunks the bytes arrive.
  \<^item> \<open>Receive_Deadline\<close>: deadlines, and reading beside other calls.
  \<^item> \<open>Flow_Concurrency\<close>: a flow used by many goroutines. A step of \<open>fstep\<close> is one critical section of
    one call; readers, handlers, timers and closers interleave freely. The invariant of reachable
    states gives the absence of panics, of lost wake-ups, of mixed-up buffers and of forgotten
    streams.
  \<^item> \<open>Receive_Flow_Buffer\<close>: \<open>receive_flow_buffer.go\<close>, with the eviction loop.
  \<^item> \<open>Session\<close>: \<open>session.go\<close>. \<open>Session_Invariant\<close>: its invariant, lookup and creation of flows.
    \<open>Session_Shutdown\<close>: \<open>close\<close> in closed form. \<open>Session_Receive\<close>: datagrams and streams.
    \<open>Session_Runs\<close>: sessions as a state machine over all calls, and sample sessions for concrete
    instances.
  \<^item> \<open>Session_Lifecycle\<close>: the goroutines of a session, its calls and the peer interleaved. A step of
    \<open>sys_step\<close> is a critical section, a part of \<open>close\<close>, or a call that waits; the fine steps compose to
    the operations of \<open>Session\<close>. The invariant of reachable states gives the absence of panics and that
    \<open>Close\<close> waits for the goroutines; two reachable states show what goes wrong.
    \<open>Session_Liveness\<close>: a closed session comes to rest, by a measure on goroutines, and \<open>Close\<close> returns.
  \<^item> \<open>Quic_Connection\<close>: \<open>quic_connection.go\<close> and \<open>qlog/qlog.go\<close> over quic-go.

  The example programs:

  \<^item> \<open>Interop_Sender\<close>: \<open>sender.go\<close>, and what it puts on a connection that works, in every mode.
  \<^item> \<open>Read_Turns\<close>: a program that reads a flow in a loop, under a schedule of what the session does
    meanwhile; \<open>Interop_Receiver\<close>: \<open>receiver.go\<close> with \<open>io.Copy\<close>. \<open>Interop_End_To_End\<close>: from the frames of the
    sender to the writes of the receiver.
  \<^item> \<open>Interop_Files\<close>: \<open>file_writer.go\<close> and \<open>ivf_frame_reader.go\<close>. \<open>Interop_Main\<close>: \<open>main.go\<close> with its flags,
    certificates, connection, processes and the buffered writer.
  \<^item> \<open>Save_To_Disk\<close>, \<open>Play_From_Disk\<close>: the programs of these names. \<open>Go_Float\<close>: rounding of \<open>float32\<close> and
    \<open>float64\<close>, for the pace of the latter.

  This theory has the properties across components of the library: from one session to the other, of
  whole sessions, of creating flows, closing, receiving and logging.

  \<^bold>\<open>Loops.\<close> No loop needs fuel: the loop of \<open>readStream\<close> takes at least a byte off the stream in every
  round but the last, the eviction loop shortens the queue, and both are total functions. The receive
  loops of a session, the loops of the senders and of the readers run over the list of what the calls
  in them return, or over a schedule; a result says whether they still run. The loop of the file
  writer and the one of \<open>bufio.Writer\<close> may run for ever for some parameters: they are partial functions,
  shown to return under the hypotheses above.

  \<^bold>\<open>Interleaving.\<close> In \<open>Session_Runs\<close> and in the example programs a call of the session runs to its end
  before the next starts. The finer interleavings are those of \<open>Flow_Concurrency\<close>, for one flow, and of
  \<open>Session_Lifecycle\<close>, for a session. Memory is sequentially consistent between critical sections.

  \<^bold>\<open>Not modelled.\<close> Log output of the example programs, timing (a ticker ticks, a deadline expires at some
  moment), and the internals of the parameters.

  \<^bold>\<open>Plan.\<close> The example programs over the interleaved session, with quic-go's side of a closing
  connection; several receive flows and their readers at once; eviction racing stream handlers in
  \<open>Session_Lifecycle\<close>.
\<close>

section \<open>From one session to the other\<close>

lemma set_committed: "set (committed V s cs) \<subseteq> fst ` set cs"
proof (induction V s cs rule: committed.induct)
  case (2 V s p rf rw cs)
  then show ?case
    by (cases "WriteRTPBytes V s p rf rw") (force split: prod.splits)+
qed simp

lemma NewSendStream_Inr:
  assumes "NewSendStream flow prio inc (Inr (sid, hasPrio)) ref = (Inr st, flow', es)"
  shows "st = newRTPSendStream sid (sf_id flow) (sf_flowID flow) (sf_qlog flow)"
  using assms by (auto simp: NewSendStream_def Let_def split: option.splits)

text \<open>C1: packets written to a stream of a send flow arrive. Whatever the QUIC stream accepted of
  each write, once nothing is pending the receiving session hands exactly the accepted packets, in
  order and each once, to the receive flow of the same ID, as far as its buffer has room.\<close>

theorem stream_delivery:
  assumes "quicvarint V"
    and "newFlow V i q lg = Done flow"
    and "NewSendStream flow prio inc (Inr (sid, hasPrio)) ref = (Inr st, flow', es0)"
    and "send_run V st cs = Done (st', es)" and "\<forall>c \<in> set cs. packet_ok (fst c)"
    and "rss_pending st' = []" and "rss_sentFlowID st'"
    and "session_ok s" and "sm_get (s_receiveFlows s) i = Some r" and "st_flow (s_rstore s) r = Some f"
    and "\<not> rf_ctxDone f" and "rs_ID rs \<notin> set (rf_streams f)" and "rs_data rs = wire sid es"
  shows "\<exists>s' es' f'. handleUniStream V pick s rs = Done (s', es') \<and> session_ok s' \<and>
    st_flow (s_rstore s') r = Some f' \<and>
    rf_packets f' = take (rf_cap f) (rf_packets f @ committed V st cs)"
proof -
  note new = quicvarint.newFlow_Done [OF assms(1,2)]
  have st: "st = newRTPSendStream sid i (vi_enc V i) q"
    using NewSendStream_Inr [OF assms(3)] new by simp
  have "wire sid es = vi_enc V i @ concat (map (frame V) (committed V st cs))"
    using quicvarint.send_run_wire [OF assms(1,4,5)] assms(6,7)
    by (simp add: st newRTPSendStream_def owed_def)
  then have data: "rs_data rs = vi_enc V i @ concat (map (frame V) (committed V st cs))"
    using assms(13) by simp
  define rs1 where "rs1 = rs\<lparr>rs_data := concat (map (frame V) (committed V st cs))\<rparr>"
  have "\<forall>p \<in> set (committed V st cs). packet_ok p"
    using set_committed [of V st cs] assms(5) by auto
  then have ps: "stream_packets V (rs_end rs1 = io_EOF) (rs_data rs1) = committed V st cs"
    using quicvarint.stream_packets_frames [OF assms(1)] by (simp add: rs1_def)
  obtain r' s1 es1 f1 f' rs' es2 where h:
    "receiveFlow s i = Done (r', s1, es1)" "found s i r' s1" "st_flow (s_rstore s1) r' = Some f1"
    "rf_ok [] f1" "rf_id f1 = i" "readStream V pick f1 rs1 = Done (f', rs', es2)"
    "HandleUniStreamWithFlowID V pick s i rs1 = Done (with_flow r' f' s1,
       qlog_if (s_qlog s) (\<lambda>q. StreamOpened i (word_of_int (rs_ID rs1))) @ es1 @ es2)"
    "session_ok (with_flow r' f' s1)"
    by (rule quicvarint.HandleUniStreamWithFlowID_found [OF assms(1,8), of i pick rs1]) (rule that)
  have "r' = r" "s1 = s" "f1 = f"
    using receiveFlow_known(1) [OF session_okD(1) [OF assms(8)], of i r] assms(9,10) h(1,3) by auto
  moreover have "\<not> rf_closed f"
    using assms(11) h(4) calculation by (auto simp: rf_ok_def close_ok_def)
  then have "rf_packets f' = take (rf_cap f) (rf_packets f @ committed V st cs)"
    using quicvarint.readStream_packets [OF assms(1), of f rs1 pick] h(4,6) assms(11,12) calculation ps
    by (simp add: rs1_def queues_def)
  ultimately show ?thesis
    using h(7,8) quicvarint.handleUniStream_enc [OF assms(1) new(1) data, of pick s]
    by (simp add: rs1_def st_put_def)
qed

theorem stream_delivery_witness:
  "\<exists>flow st flow' es0 st' es s' es' f'. newFlow rfc9000 7 None None = Done flow \<and>
     NewSendStream flow 0 False (Inr (4, False)) 0 = (Inr st, flow', es0) \<and>
     send_run rfc9000 st [([1, 2], (0, None), (2, None)), ([3], (2, None), (2, None))] = Done (st', es) \<and>
     handleUniStream rfc9000 (\<lambda>_. None) sample7 \<lparr>rs_ID = 4, rs_data = wire 4 es, rs_end = io_EOF\<rparr> = Done (s', es') \<and>
     st_flow (s_rstore s') 0 = Some f' \<and> rf_packets f' = [[1, 2], [3]]"
proof -
  let ?cs = "[([1, 2], (0, None), (2, None)), ([3], (2, None), (2, None))] :: send_call list"
  obtain flow where flow: "newFlow rfc9000 7 None None = Done flow"
    by (simp add: newFlow_def rfc_small)
  obtain st flow' es0 where st: "NewSendStream flow 0 False (Inr (4, False)) 0 = (Inr st, flow', es0)"
    and eq: "st = newRTPSendStream 4 7 [7] None"
    using flow by (auto simp: newFlow_def rfc_small NewSendStream_def sf_isClosed_def Let_def)
  obtain st' es where run: "send_run rfc9000 st ?cs = Done (st', es)" "rss_pending st' = []" "rss_sentFlowID st'"
    by (simp add: eq send_eval)
  have cm: "committed rfc9000 st ?cs = [[1, 2], [3]]"
    by (simp add: eq send_eval)
  obtain f where f: "sm_get (s_receiveFlows sample7) 7 = Some 0" "st_flow (s_rstore sample7) 0 = Some f"
    "newReceiveFlow 7 2 None (Some (s_logger sample)) = Done f"
    by (rule sample7_flow)
  note new = rf_new_fields [OF f(3)]
  let ?rs = "\<lparr>rs_ID = 4, rs_data = wire 4 es, rs_end = io_EOF\<rparr>"
  have "\<forall>c \<in> set ?cs. packet_ok (fst c)"
    by (simp add: packet_ok_def)
  from stream_delivery [OF rfc.quicvarint_axioms flow st run(1) this run(2,3) sample7_ok f(1,2),
    of ?rs "\<lambda>_. None", unfolded cm] new
  have "\<exists>s' es' f'. handleUniStream rfc9000 (\<lambda>_. None) sample7 ?rs = Done (s', es') \<and>
      st_flow (s_rstore s') 0 = Some f' \<and> rf_packets f' = [[1, 2], [3]]"
    by auto
  then show ?thesis
    using flow st run(1) by blast
qed

text \<open>C2: a packet written to a send flow as a datagram arrives: the datagram is the flow ID and the
  packet, and the receiving session appends the packet, unchanged, to the receive flow of the same
  ID if that is open and has room, and drops it otherwise.\<close>

theorem datagram_delivery:
  assumes "quicvarint V" and "newFlow V i q lg = Done flow"
    and "session_ok s" and "sm_get (s_receiveFlows s) i = Some r" and "st_flow (s_rstore s) r = Some f"
  shows "\<exists>d ev s' es f'. SendFlow_WriteRTPBytes flow p sendErr = (sendErr, ev @ [SendDatagram d]) \<and>
    d = vi_enc V i @ p \<and>
    HandleDatagram V pick deref cr s d = Done (s', es) \<and> session_ok s' \<and>
    st_flow (s_rstore s') r = Some f' \<and>
    rf_packets f' = (if \<not> rf_closed f \<and> length (rf_packets f) < rf_cap f
                     then rf_packets f @ [p] else rf_packets f)"
proof -
  note new = quicvarint.newFlow_Done [OF assms(1,2)]
  let ?d = "vi_enc V i @ p"
  have parse: "vi_Parse V ?d = Inr (i, length (vi_enc V i))"
    using quicvarint.Parse_enc [OF assms(1) new(1)] .
  obtain r' s1 es f1 f' where h:
    "receiveFlow s i = Done (r', s1, es)" "found s i r' s1" "st_flow (s_rstore s1) r' = Some f1"
    "rf_ok [] f1" "rf_id f1 = i" "queues f1 [drop (length (vi_enc V i)) ?d] f'"
    "HandleDatagram V pick deref cr s ?d = Done (with_flow r' f' s1,
       qlog_if (s_qlog s) (\<lambda>q. DatagramPacketParsed
         (wire_packet q i ?d (word_of_nat (length ?d - length (vi_enc V i))))) @ es)"
    "session_ok (with_flow r' f' s1)"
    by (rule quicvarint.HandleDatagram_parsed [OF assms(1,3) parse, of pick deref cr]) (rule that)
  have "r' = r" "s1 = s" "f1 = f"
    using receiveFlow_known(1) [OF session_okD(1) [OF assms(3)], of i r] assms(4,5) h(1,3) by auto
  moreover have "rf_packets f' = (if \<not> rf_closed f \<and> length (rf_packets f) < rf_cap f
                     then rf_packets f @ [p] else rf_packets f)"
    using h(4,6) calculation rf_packets_le_cap [of "[]" f] by (auto simp: queues_def take_Cons')
  ultimately show ?thesis
    using h(7,8) new by (simp add: SendFlow_WriteRTPBytes_def sf_isClosed_def st_put_def Let_def)
qed

theorem datagram_delivery_witness:
  "\<exists>flow ev s' es f'. newFlow rfc9000 7 None None = Done flow \<and>
     SendFlow_WriteRTPBytes flow [1, 2] None = (None, ev @ [SendDatagram [7, 1, 2]]) \<and>
     HandleDatagram rfc9000 (\<lambda>_. None) (out_deref sample_world) (out_close sample_world) sample7 [7, 1, 2]
       = Done (s', es) \<and>
     st_flow (s_rstore s') 0 = Some f' \<and> rf_packets f' = [[1, 2]]"
proof -
  obtain flow where flow: "newFlow rfc9000 7 None None = Done flow"
    by (simp add: newFlow_def rfc_small)
  obtain f where f: "sm_get (s_receiveFlows sample7) 7 = Some 0" "st_flow (s_rstore sample7) 0 = Some f"
    "newReceiveFlow 7 2 None (Some (s_logger sample)) = Done f"
    by (rule sample7_flow)
  have "vi_enc rfc9000 7 = [7]"
    by (simp add: rfc_small del: vi_enc_rfc9000)
  with datagram_delivery [OF rfc.quicvarint_axioms flow sample7_ok f(1,2), of "[1, 2]" None "\<lambda>_. None"
      "out_deref sample_world" "out_close sample_world"] flow rf_new_fields [OF f(3)]
  show ?thesis
    by auto
qed

section \<open>Sessions as a whole\<close>


lemma sample_reach: "session_reach V sample"
proof (rule session_reach.new_app)
  show "NewSessionWithAppHandledConn (Some \<lparr>conn_QlogTrace = None\<rparr>) True [Some (WithReceiveBufferSize 2)] = Inr sample"
    by (simp add: NewSessionWithAppHandledConn_def newSessionConfig_def WithReceiveBufferSize_def sample_def)
qed (auto intro: library_option.intros)


text \<open>C16: in every reachable session a flow ID is registered or buffered but never both, so that a
  flow has one receiver; the buffer of unknown flows holds at most as many flows as configured; and
  every registered or buffered flow carries the ID it is stored under.\<close>

theorem flow_ids_consistent:
  assumes "quicvarint V" and "session_reach V s"
  shows "int (length (rfb_queue (s_receiveFlowBuffer s))) \<le> maxLen (s_receiveFlowBuffer s) \<and>
    set (rfb_queue (s_receiveFlowBuffer s)) = dom (map_of (rfb_buffer (s_receiveFlowBuffer s))) \<and>
    dom (sm_get (s_receiveFlows s)) \<inter> set (rfb_queue (s_receiveFlowBuffer s)) = {} \<and>
    (\<forall>i r. sm_get (s_receiveFlows s) i = Some r \<or> map_of (rfb_buffer (s_receiveFlowBuffer s)) i = Some r \<longrightarrow>
       (\<exists>f. st_flow (s_rstore s) r = Some f \<and> rf_id f = i))"
proof -
  have r: "recv_ok s"
    using quicvarint.session_reach_ok [OF assms] by (rule session_okD)
  then have q: "set (rfb_queue (s_receiveFlowBuffer s)) = dom (map_of (rfb_buffer (s_receiveFlowBuffer s)))"
    by (simp add: recv_ok_def rfb_ok_def dom_map_of_conv_image_fst)
  have "dom (sm_get (s_receiveFlows s)) \<inter> set (rfb_queue (s_receiveFlowBuffer s)) = {}"
    unfolding q using r by (auto simp: recv_ok_def)
  then show ?thesis
    using r q by (auto simp: recv_ok_def rfb_ok_def names_def)
qed

theorem flow_ids_consistent_witness:
  "dom (sm_get (s_receiveFlows sample)) \<inter> set (rfb_queue (s_receiveFlowBuffer sample)) = {}"
  using flow_ids_consistent [OF rfc.quicvarint_axioms sample_reach] by blast

text \<open>A new session is well-formed, open and has started one receive loop for streams and one
  for datagrams if it accepts them; a nil connection and invalid options are reported as errors.\<close>

lemma new_session_result:
  assumes "\<And>opt. Some opt \<in> set opts \<Longrightarrow> library_option opt"
  shows "case NewSession conn accept opts of
      Inl e \<Rightarrow> (if conn = None then e = errNilConnection else errors_Is e errInvalidOption)
    | Inr s \<Rightarrow> conn \<noteq> None \<and> session_ok s \<and> isClosed s = None \<and> s_wg s = (if accept then 2 else 1)"
proof (cases conn)
  case None
  then show ?thesis by (simp add: NewSession_def)
next
  case (Some c)
  show ?thesis
  proof (cases "newSessionConfig opts")
    case (Inl e)
    then show ?thesis
      using apply_options_library [OF config_ok_default assms, of opts] Some
      by (simp add: NewSession_def newSessionConfig_def)
  next
    case (Inr config)
    then have "session_ok (start (newSession c accept config))"
      using newSession_ok(2) newSessionConfig_ok [OF Inr assms] by blast
    then show ?thesis
      using Some Inr by (simp add: NewSession_def isClosed_def) (simp add: start_def newSession_def)
  qed
qed

text \<open>RoQ events are logged exactly if there is a trace that supports the event schema, the one
  of the options before the one of the connection, with the data limit of the options.\<close>

lemma qlog_trace_choice:
  "newQlogger conn config = Some q \<longleftrightarrow>
     (\<exists>t. (qlogTrace config = Some t \<or> qlogTrace config = None \<and> conn_QlogTrace conn = Some (Some t)) \<and>
        SupportsSchemas t EventSchema \<and>
        q = \<lparr>recorder = AddProducer t, logData = qlogPacketData config, dataLimit = qlogPacketDataLimit config\<rparr>)"
  by (auto simp: newQlogger_def Let_def split: option.splits)

section \<open>Creating flows\<close>

text \<open>C25: \<open>NewReceiveFlow\<close> on every branch: the error of a closed session, \<open>errDuplicateFlowID\<close> for a
  registered ID, and otherwise the flow that was buffered for the ID, with the packets that arrived
  for it, or a new one; the flow is then registered and no longer buffered.\<close>

theorem new_receive_flow:
  assumes "session_ok s"
  shows "case s_closedErr s of
      Some e \<Rightarrow> NewReceiveFlow s i = Done (Inl e, s)
    | None \<Rightarrow> (case sm_get (s_receiveFlows s) i of
        Some r \<Rightarrow> NewReceiveFlow s i = Done (Inl errDuplicateFlowID, s)
      | None \<Rightarrow> \<exists>r s' f. NewReceiveFlow s i = Done (Inr r, s') \<and> session_ok s' \<and>
          sm_get (s_receiveFlows s') i = Some r \<and> st_flow (s_rstore s') r = Some f \<and> rf_id f = i \<and>
          map_of (rfb_buffer (s_receiveFlowBuffer s')) i = None \<and>
          (case map_of (rfb_buffer (s_receiveFlowBuffer s)) i of
             Some b \<Rightarrow> r = b \<and> st_flow (s_rstore s) r = Some f
           | None \<Rightarrow> rf_packets f = [] \<and> \<not> rf_closed f))"
proof (cases "s_closedErr s = None \<and> sm_get (s_receiveFlows s) i = None")
  case False
  then show ?thesis
    by (auto simp: NewReceiveFlow_def isClosed_def NewReceiveFlow_locked_def split: option.split)
next
  case True
  then obtain r s' f where "NewReceiveFlow s i = Done (Inr r, s')" "session_ok s'"
    "sm_get (s_receiveFlows s') i = Some r" "st_flow (s_rstore s') r = Some f" "rf_id f = i"
    "map_of (rfb_buffer (s_receiveFlowBuffer s')) i = None"
    "case map_of (rfb_buffer (s_receiveFlowBuffer s)) i of
      Some b \<Rightarrow> r = b \<and> st_flow (s_rstore s) r = Some f
    | None \<Rightarrow> newReceiveFlow i (s_receiveBufferSize s) (s_qlog s) (Some (s_logger s)) = Done f"
    using NewReceiveFlow_open [OF assms] by blast
  then show ?thesis
    using True rf_new_fields(1,4) by (auto split: option.splits)
qed

theorem new_receive_flow_witness:
  "\<exists>r s'. NewReceiveFlow sample 7 = Done (Inr r, s') \<and> sm_get (s_receiveFlows s') 7 = Some r"
  using new_receive_flow [OF sample_ok, of 7] by (auto simp: sample_fields)

text \<open>C26: \<open>NewSendFlow\<close> on every branch, for IDs of 62 bits: the error of a closed session,
  \<open>errDuplicateFlowID\<close> for an ID in use, and otherwise an open flow registered under the ID, whose
  datagrams and streams start with the encoding of the ID.\<close>

theorem new_send_flow:
  assumes "quicvarint V" and "session_ok s" and "fits62 i"
  shows "case s_closedErr s of
      Some e \<Rightarrow> NewSendFlow V s i = Done (Inl e, s)
    | None \<Rightarrow> (case sm_get (s_sendFlows s) i of
        Some ref \<Rightarrow> NewSendFlow V s i = Done (Inl errDuplicateFlowID, s)
      | None \<Rightarrow> \<exists>ref s' f. NewSendFlow V s i = Done (Inr ref, s') \<and> session_ok s' \<and>
          sm_get (s_sendFlows s') i = Some ref \<and> ss_flow (s_sstore s') ref = Some f \<and>
          sf_id f = i \<and> sf_flowID f = vi_enc V i \<and> sf_isClosed f = None)"
proof -
  obtain f where f: "newFlow V i (s_qlog s) (Some (s_logger s)) = Done f"
    using quicvarint.newFlow_ok [OF assms(1,3)] by simp
  have "\<exists>res s'. NewSendFlow V s i = Done (res, s') \<and> session_ok s'"
    using quicvarint.NewSendFlow_ok [OF assms] .
  then show ?thesis
    using f quicvarint.newFlow_Done [OF assms(1) f]
    by (auto simp: NewSendFlow_def NewSendFlow_insert_def isClosed_def getOrInsert_def ss_alloc_def
        sm_get_update sf_isClosed_def split: option.splits)
qed

theorem new_send_flow_witness:
  "\<exists>ref s'. NewSendFlow rfc9000 sample 7 = Done (Inr ref, s') \<and> sm_get (s_sendFlows s') 7 = Some ref"
  using new_send_flow [OF rfc.quicvarint_axioms sample_ok, of 7]
  by (auto simp: sample_fields fits62_small)

section \<open>Closing\<close>

text \<open>C15: closing an open session reaches everything: every registered send flow is closed and
  unregistered, every registered receive flow is closed with its context cancelled and its streams
  cancelled, the connection is closed last and once, with the given code and reason, and the session
  context is cancelled, whatever the streams and the connection return.\<close>

theorem close_reaches_all:
  assumes "session_ok s" and "s_closedErr s = None"
  shows "\<exists>s' es. s_close deref cr s c why = Done (s', es @ [ConnCloseWithError c why]) \<and>
    session_ok s' \<and> isClosed s' = Some (SessionErr \<lparr>se_code = c, se_reason = why\<rparr>) \<and>
    s_ctxDone s' \<and> s_connCloseErr s' = cr_conn cr \<and> (\<forall>c' w'. ConnCloseWithError c' w' \<notin> set es) \<and>
    (\<forall>i ref. sm_get (s_sendFlows s) i = Some ref \<longrightarrow> sm_get (s_sendFlows s') i = None \<and>
       (\<exists>f f'. ss_flow (s_sstore s) ref = Some f \<and> ss_flow (s_sstore s') ref = Some f' \<and>
          sf_isClosed f' = Some errClosed \<and>
          (\<forall>k \<in> set (sf_streams f). StreamClose (rss_stream (deref k)) \<in> set es))) \<and>
    (\<forall>i r. sm_get (s_receiveFlows s) i = Some r \<longrightarrow>
       (\<exists>f f'. st_flow (s_rstore s) r = Some f \<and> st_flow (s_rstore s') r = Some f' \<and>
          rf_closed f' \<and> rf_ctxDone f' \<and> rf_packets f' = rf_packets f \<and>
          (\<forall>k \<in> set (rf_streams f). CancelRead k ErrRoQNoError \<in> set es)))"
proof -
  let ?s = "shut cr c why s"
  let ?se = "concat (map (stream_closes deref (s_sstore s) \<circ> snd) (elements (s_sendFlows s)))"
  let ?re = "concat (map (stream_cancels (s_rstore s) \<circ> snd) (elements (s_receiveFlows s)))"
  have eq: "s_close deref cr s c why = Done (?s, (?se @ ?re) @ [ConnCloseWithError c why])"
    using s_close_eq [OF assms] by (simp add: shut_effects_def)
  have once: "\<forall>c' w'. ConnCloseWithError c' w' \<notin> set (?se @ ?re)"
    by (auto simp: stream_closes_def stream_cancels_def rf_closeWithError_def split: option.splits)
  have "set ?se \<subseteq> set (?se @ ?re)" and "set ?re \<subseteq> set (?se @ ?re)"
    by auto
  note send = shut_send_flow [OF assms(1) _ this(1)] and recv = shut_receive_flow [OF assms(1) _ this(2)]
  have "isClosed ?s = Some (SessionErr \<lparr>se_code = c, se_reason = why\<rparr>)" "s_ctxDone ?s"
    "s_connCloseErr ?s = cr_conn cr"
    by (simp_all add: shut_def isClosed_def)
  then show ?thesis
    using eq once shut_ok [OF assms(1)]
    by (intro exI [of _ ?s] exI [of _ "?se @ ?re"] conjI allI impI send recv) simp_all
qed

theorem close_reaches_all_witness:
  "\<exists>s' es f'. s_close (out_deref sample_world) (out_close sample_world) sample7 3 ''x''
       = Done (s', es @ [ConnCloseWithError 3 ''x'']) \<and>
     st_flow (s_rstore s') 0 = Some f' \<and> rf_closed f'"
proof -
  obtain f where "sm_get (s_receiveFlows sample7) 7 = Some 0" "s_closedErr sample7 = None"
    by (rule sample7_flow)
  then show ?thesis
    using close_reaches_all [OF sample7_ok, of "out_deref sample_world" "out_close sample_world" 3 "''x''"]
    by fastforce
qed

text \<open>The first close wins: once closed, a session stays as it is under further closes, whatever
  their code, and creating flows reports the error of the first.\<close>

lemma first_close_wins:
  assumes "session_ok s" and "s_closedErr s = None" and "s_close deref cr s c why = Done (s1, es)"
  shows "s_close deref' cr' s1 c' why' = Done (s1, []) \<and>
    NewSendFlow V s1 i = Done (Inl (SessionErr \<lparr>se_code = c, se_reason = why\<rparr>), s1) \<and>
    NewReceiveFlow s1 j = Done (Inl (SessionErr \<lparr>se_code = c, se_reason = why\<rparr>), s1)"
proof -
  have "s_closedErr s1 = Some (SessionErr \<lparr>se_code = c, se_reason = why\<rparr>)"
    using s_close_eq [OF assms(1,2), of deref cr c why] assms(3) by (auto simp: shut_def)
  then show ?thesis
    by (simp add: s_close_again NewSendFlow_def NewReceiveFlow_def isClosed_def)
qed



text \<open>Closing a send flow a second time, after its ID was used for a new flow, takes the new flow
  out of the session: it stays open, but its ID is free again and closing the session does not
  reach it.\<close>

lemma second_close_unregisters_successor:
  assumes "quicvarint V" and "session_ok s" and "s_closedErr s = None"
    and "sm_get (s_sendFlows s) i = Some ref"
    and "close_send_flow deref ce ref s = (e1, s1, es1)"
    and "NewSendFlow V s1 i = Done (Inr ref2, s2)"
    and "close_send_flow deref ce ref s2 = (e3, s3, es3)"
  shows "sm_get (s_sendFlows s2) i = Some ref2 \<and> sm_get (s_sendFlows s3) i = None \<and>
    (\<exists>f. ss_flow (s_sstore s3) ref2 = Some f \<and> sf_id f = i \<and> sf_isClosed f = None)"
proof -
  obtain f where f: "ss_flow (s_sstore s) ref = Some f" "sf_id f = i" "ref < ss_next (s_sstore s)"
    using assms(2,4) by (force simp: session_ok_def send_ok_def)
  have s1: "s1 = s\<lparr>s_sendFlows := sm_delete i (s_sendFlows s), s_sstore := mark_closed {ref} (s_sstore s)\<rparr>"
    using close_send_flow_eq [OF f(1), of deref ce] assms(5) f(2) by simp
  obtain g where g: "newFlow V i (s_qlog s1) (Some (s_logger s1)) = Done g"
    using assms(3,6) s1 by (auto simp: NewSendFlow_def NewSendFlow_insert_def isClosed_def bind_outcome_Done_iff)
  have "s2 = s1\<lparr>s_sendFlows := sm_set i ref2 (s_sendFlows s1), s_sstore := snd (ss_alloc g (s_sstore s1))\<rparr>"
    and ref2: "ref2 = ss_next (s_sstore s1)"
    using assms(3,6) s1 g
    by (auto simp: NewSendFlow_def NewSendFlow_insert_def isClosed_def ss_alloc_def getOrInsert_def
        split: option.splits)
  then have s2: "sm_get (s_sendFlows s2) i = Some ref2"
    "ss_flow (s_sstore s2) ref = Some (f\<lparr>sf_closedErr := Some errClosed\<rparr>)"
    "ss_flow (s_sstore s2) ref2 = Some g" "ref2 \<noteq> ref"
    using f s1 by (auto simp: sm_get_update ss_alloc_def mark_closed_def)
  show ?thesis
    using close_send_flow_eq [OF s2(2), of deref ce] assms(7) s2 f(2)
      quicvarint.newFlow_Done [OF assms(1) g]
    by (auto simp: sm_get_delete mark_closed_def sf_isClosed_def)
qed

section \<open>Receiving\<close>

text \<open>The loop over datagrams hands every packet for a registered open flow to that flow, in the
  order of arrival, until the flow is full, and goes on waiting for more.\<close>

lemma datagram_loop_delivers:
  assumes "quicvarint V" and "fits62 i" and "session_ok s" and "sm_get (s_receiveFlows s) i = Some r"
    and "st_flow (s_rstore s) r = Some f" and "\<not> rf_closed f"
  shows "\<exists>s' es f'. receiveDatagrams V pick deref cr (map (\<lambda>p. Inr (vi_enc V i @ p)) ps) s = Done (None, s', es) \<and>
    session_ok s' \<and> st_flow (s_rstore s') r = Some f' \<and>
    rf_packets f' = take (rf_cap f) (rf_packets f @ ps)"
proof -
  have "\<exists>s' es f'. receiveDatagrams V pick deref cr (map (\<lambda>p. Inr (vi_enc V i @ p)) ps) s = Done (None, s', es) \<and>
    session_ok s' \<and> st_flow (s_rstore s') r = Some f' \<and> queues f ps f'"
    using assms(3-5)
  proof (induction ps arbitrary: s f)
    case Nil
    then have "rf_ok [] f"
      by (simp add: session_ok_def recv_ok_def store_ok_def)
    then show ?case
      using Nil queues_Nil by simp
  next
    case (Cons p ps)
    have parse: "vi_Parse V (vi_enc V i @ p) = Inr (i, length (vi_enc V i))"
      using quicvarint.Parse_enc [OF assms(1,2)] .
    obtain f1 es where h: "HandleDatagram V pick deref cr s (vi_enc V i @ p) = Done (with_flow r f1 s, es)"
      "queues f [drop (length (vi_enc V i)) (vi_enc V i @ p)] f1" "session_ok (with_flow r f1 s)"
      by (rule HandleDatagram_registered [OF assms(1) Cons.prems(1) parse Cons.prems(2,3), of pick deref cr])
    have "sm_get (s_receiveFlows (with_flow r f1 s)) i = Some r"
      "st_flow (s_rstore (with_flow r f1 s)) r = Some f1"
      using Cons.prems(2) by (simp_all add: st_put_def)
    from Cons.IH [OF h(3) this] obtain s' es' f' where
      "receiveDatagrams V pick deref cr (map (\<lambda>p. Inr (vi_enc V i @ p)) ps) (with_flow r f1 s) = Done (None, s', es')"
      "session_ok s'" "st_flow (s_rstore s') r = Some f'" "queues f1 ps f'"
      by blast
    then show ?case
      using h(1,2) queues_trans [of f "[p]" f1 ps f'] by simp
  qed
  then show ?thesis
    using assms(6) by (auto simp: queues_def)
qed

text \<open>A datagram changes the flow of its ID and nothing else: other flows, the registered flows,
  the send flows and the state of the session stay as they are.\<close>

lemma datagram_isolated:
  assumes "quicvarint V" and "session_ok s" and "vi_Parse V d = Inr (i, n)"
  shows "\<exists>r s' es. HandleDatagram V pick deref cr s d = Done (s', es) \<and> names (s_rstore s') i r \<and>
    (\<forall>q. q \<noteq> r \<longrightarrow> st_flow (s_rstore s) q \<noteq> None \<longrightarrow> st_flow (s_rstore s') q = st_flow (s_rstore s) q) \<and>
    s_receiveFlows s' = s_receiveFlows s \<and> s_sendFlows s' = s_sendFlows s \<and>
    s_sstore s' = s_sstore s \<and> s_closedErr s' = s_closedErr s \<and> session_ok s'"
proof -
  obtain r s1 es f f' where h:
    "receiveFlow s i = Done (r, s1, es)" "found s i r s1" "st_flow (s_rstore s1) r = Some f"
    "rf_ok [] f" "rf_id f = i" "queues f [drop (length (vi_enc V i)) d] f'"
    "HandleDatagram V pick deref cr s d = Done (with_flow r f' s1,
       qlog_if (s_qlog s) (\<lambda>q. DatagramPacketParsed (wire_packet q i d (word_of_nat (length d - n)))) @ es)"
    "session_ok (with_flow r f' s1)"
    by (rule quicvarint.HandleDatagram_parsed [OF assms, of pick deref cr]) (rule that)
  have keep: "st_flow (s_rstore s) q \<noteq> None \<Longrightarrow> st_flow (s_rstore s1) q = st_flow (s_rstore s) q" for q
    using h(2) by (simp add: found_def)
  have eq: "s1 = s\<lparr>s_receiveFlowBuffer := s_receiveFlowBuffer s1, s_rstore := s_rstore s1\<rparr>"
    using h(2) by (simp add: found_def)
  have "s_receiveFlows s1 = s_receiveFlows s" "s_sendFlows s1 = s_sendFlows s"
    "s_sstore s1 = s_sstore s" "s_closedErr s1 = s_closedErr s"
    by (subst eq, simp)+
  moreover have "names (s_rstore (with_flow r f' s1)) i r"
    using h(5,6) by (simp add: names_def st_put_def queues_def same_but_buffers_def)
  moreover have "st_flow (s_rstore (with_flow r f' s1)) q = st_flow (s_rstore s) q"
    if "q \<noteq> r" "st_flow (s_rstore s) q \<noteq> None" for q
    using that keep by (simp add: st_put_def)
  ultimately show ?thesis
    using h(7,8) by (intro exI [of _ r] exI [of _ "with_flow r f' s1"] exI) auto
qed

text \<open>C19: packets that arrive before the application asks for their flow are not lost: a datagram
  for an unknown ID is kept, and the flow \<open>NewReceiveFlow\<close> then returns has it queued.\<close>

theorem early_datagram_kept:
  assumes "quicvarint V" and "fits62 i" and "session_ok s" and "s_closedErr s = None"
    and "0 < s_receiveBufferSize s" and "sm_get (s_receiveFlows s) i = None"
    and "map_of (rfb_buffer (s_receiveFlowBuffer s)) i = None"
  shows "\<exists>s1 es r s2 f. HandleDatagram V pick deref cr s (vi_enc V i @ p) = Done (s1, es) \<and>
    NewReceiveFlow s1 i = Done (Inr r, s2) \<and> st_flow (s_rstore s2) r = Some f \<and>
    rf_id f = i \<and> rf_packets f = [p]"
proof -
  have parse: "vi_Parse V (vi_enc V i @ p) = Inr (i, length (vi_enc V i))"
    using quicvarint.Parse_enc [OF assms(1,2)] .
  obtain r s1 es f f' where h:
    "receiveFlow s i = Done (r, s1, es)" "found s i r s1" "st_flow (s_rstore s1) r = Some f"
    "rf_ok [] f" "rf_id f = i" "queues f [drop (length (vi_enc V i)) (vi_enc V i @ p)] f'"
    "HandleDatagram V pick deref cr s (vi_enc V i @ p) = Done (with_flow r f' s1,
       qlog_if (s_qlog s) (\<lambda>q. DatagramPacketParsed (wire_packet q i (vi_enc V i @ p)
         (word_of_nat (length (vi_enc V i @ p) - length (vi_enc V i))))) @ es)"
    "session_ok (with_flow r f' s1)"
    by (rule quicvarint.HandleDatagram_parsed [OF assms(1,3) parse, of pick deref cr]) (rule that)
  obtain g b1 s1' es' where n:
    "newReceiveFlow i (s_receiveBufferSize s) (s_qlog s) (Some (s_logger s)) = Done g"
    "evict (s_rstore s) (s_receiveFlowBuffer s) = Done (b1, es')"
    "receiveFlow s i = Done (st_next (s_rstore s), s1', es')"
    "found s i (st_next (s_rstore s)) s1'" "st_flow (s_rstore s1') (st_next (s_rstore s)) = Some g"
    by (rule receiveFlow_unknown [OF session_okD(1) [OF assms(3)] assms(6,7)]) (rule that)
  have "f = g"
    using n(3,5) h(1,3) by auto
  then have f': "rf_packets f' = [p]" "rf_id f' = i"
    using h(5,6) rf_new_fields [OF n(1)] assms(5) by (auto simp: queues_def same_but_buffers_def)
  let ?s = "with_flow r f' s1"
  have eq: "s1 = s\<lparr>s_receiveFlowBuffer := s_receiveFlowBuffer s1, s_rstore := s_rstore s1\<rparr>"
    and "sm_get (s_receiveFlows s) i = Some r \<or> map_of (rfb_buffer (s_receiveFlowBuffer s1)) i = Some r"
    using h(2) by (simp_all add: found_def)
  moreover have "s_receiveFlows s1 = s_receiveFlows s" "s_closedErr s1 = s_closedErr s"
    by (subst eq, simp)+
  ultimately have "s_closedErr ?s = None" "sm_get (s_receiveFlows ?s) i = None"
    "map_of (rfb_buffer (s_receiveFlowBuffer ?s)) i = Some r"
    using assms(4,6) by simp_all
  then have "\<exists>s2. NewReceiveFlow ?s i = Done (Inr r, s2) \<and> st_flow (s_rstore s2) r = Some f'"
    by (simp add: NewReceiveFlow_def isClosed_def NewReceiveFlow_locked_def pop_def Let_def st_put_def)
  then show ?thesis
    using h(7) f' by blast
qed

theorem early_datagram_kept_witness:
  "\<exists>s1 es r s2 f. HandleDatagram rfc9000 (\<lambda>_. None) (out_deref sample_world) (out_close sample_world) sample
       (vi_enc rfc9000 9 @ [1, 2]) = Done (s1, es) \<and>
     NewReceiveFlow s1 9 = Done (Inr r, s2) \<and> st_flow (s_rstore s2) r = Some f \<and> rf_packets f = [[1, 2]]"
proof -
  have "fits62 9" "0 < s_receiveBufferSize sample"
    by (simp_all add: fits62_small sample_fields)
  from early_datagram_kept [OF rfc.quicvarint_axioms this(1) sample_ok sample_fields(1) this(2) sample_fields(2,5)]
  show ?thesis
    by blast
qed

text \<open>C28: malformed input: a datagram without a complete flow ID closes an open session with
  \<open>ErrRoQPacketError\<close>, and leaves a closed one alone; a stream without one is cancelled with
  \<open>ErrRoQPacketError\<close> and does not touch the session.\<close>

theorem malformed_input:
  assumes "quicvarint V" and "session_ok s" and "\<not> varint_complete d"
  shows "(\<exists>s' es. HandleDatagram V pick deref cr s d = Done (s', es) \<and> session_ok s' \<and>
      (if s_closedErr s = None
       then isClosed s' = Some (SessionErr \<lparr>se_code = ErrRoQPacketError, se_reason = ''invalid flow ID''\<rparr>) \<and>
            last es = ConnCloseWithError ErrRoQPacketError ''invalid flow ID''
       else s' = s \<and> es = [])) \<and>
    handleUniStream V pick s \<lparr>rs_ID = k, rs_data = d, rs_end = e\<rparr> = Done (s, [CancelRead k ErrRoQPacketError])"
proof -
  obtain e' where p: "vi_Parse V d = Inl e'"
    using quicvarint.Parse_incomplete [OF assms(1,3)] by blast
  let ?rs = "\<lparr>rs_ID = k, rs_data = d, rs_end = e\<rparr>"
  obtain e2 r2 where "vi_Read V ?rs = (Inl e2, r2)"
    using quicvarint.Read_fail [OF assms(1), of ?rs e'] p by auto
  then have "handleUniStream V pick s ?rs = Done (s, [CancelRead k ErrRoQPacketError])"
    by (simp add: handleUniStream_def)
  moreover have "HandleDatagram V pick deref cr s d = s_close deref cr s ErrRoQPacketError ''invalid flow ID''"
    using p by (rule quicvarint.HandleDatagram_malformed [OF assms(1)])
  ultimately show ?thesis
    using s_close_eq [OF assms(2)] s_close_again [of s] shut_ok [OF assms(2)] assms(2)
    by (cases "s_closedErr s") (auto simp: shut_def isClosed_def shut_effects_def)
qed

theorem malformed_input_witness:
  "\<exists>s' es. HandleDatagram rfc9000 (\<lambda>_. None) (out_deref sample_world) (out_close sample_world) sample [] = Done (s', es) \<and>
     isClosed s' = Some (SessionErr \<lparr>se_code = ErrRoQPacketError, se_reason = ''invalid flow ID''\<rparr>)"
proof -
  have "\<not> varint_complete []"
    by (simp add: varint_complete_def)
  from malformed_input [OF rfc.quicvarint_axioms sample_ok this, of "\<lambda>_. None" "out_deref sample_world"
    "out_close sample_world" 3 io_EOF]
  show ?thesis
    by (auto simp: sample_fields)
qed

text \<open>C37: a datagram whose flow ID is not in its shortest encoding, which RFC 9000 allows, is handed
  to the application with the last bytes of the flow ID in front of the packet: the payload starts
  behind the shortest encoding instead of behind the one that was parsed.\<close>

theorem long_flow_id_corrupts_packet:
  assumes "quicvarint V" and "session_ok s" and "vi_Parse V d = Inr (i, n)" and "length (vi_enc V i) < n"
    and "sm_get (s_receiveFlows s) i = Some r" and "st_flow (s_rstore s) r = Some f"
    and "\<not> rf_closed f" and "length (rf_packets f) < rf_cap f"
  shows "\<exists>s' es f' junk. HandleDatagram V pick deref cr s d = Done (s', es) \<and>
    st_flow (s_rstore s') r = Some f' \<and> rf_packets f' = rf_packets f @ [junk @ drop n d] \<and>
    length junk = n - length (vi_enc V i) \<and> junk \<noteq> []"
proof -
  obtain f' es where h: "HandleDatagram V pick deref cr s d = Done (with_flow r f' s, es)"
    "queues f [drop (length (vi_enc V i)) d] f'"
    by (rule HandleDatagram_registered [OF assms(1-3,5,6), of pick deref cr])
  let ?k = "length (vi_enc V i)"
  have n: "n \<le> length d"
    using quicvarint.Parse_Inr_bounds(2) [OF assms(1,3)] .
  have "drop ?k (take n d) @ drop n d = drop ?k d"
    using assms(4) n by (metis append_take_drop_id drop_append length_take min.absorb2 diff_is_0_eq
        drop0 less_imp_le)
  moreover have "length (drop ?k (take n d)) = n - ?k"
    using n by simp
  moreover have "rf_packets f' = rf_packets f @ [drop ?k d]"
    using h(2) assms(7,8) by (simp add: queues_def)
  ultimately show ?thesis
    using h(1) assms(4)
    by (intro exI [of _ "with_flow r f' s"] exI [of _ es] exI [of _ f'] exI [of _ "drop ?k (take n d)"])
      (auto simp: st_put_def)
qed

lemma rfc_Parse_seven: "rfc_Parse [0x40, 7, 1, 2] = Inr (7, 2)"
proof -
  have "varint_size 0x40 = 2"
    unfolding varint_size_def unat_tag_bits by simp
  then show ?thesis
    by (simp add: rfc_Parse_def be_val_def Let_def)
qed

theorem long_flow_id_corrupts_packet_witness:
  "\<exists>s' es f' junk. HandleDatagram rfc9000 (\<lambda>_. None) (out_deref sample_world) (out_close sample_world) sample7
       [0x40, 7, 1, 2] = Done (s', es) \<and>
     st_flow (s_rstore s') 0 = Some f' \<and> rf_packets f' = [junk @ [1, 2]] \<and> junk \<noteq> []"
proof -
  obtain f where f: "sm_get (s_receiveFlows sample7) 7 = Some 0" "st_flow (s_rstore sample7) 0 = Some f"
    "newReceiveFlow 7 2 None (Some (s_logger sample)) = Done f"
    by (rule sample7_flow)
  note new = rf_new_fields [OF f(3)]
  have "vi_Parse rfc9000 [0x40, 7, 1, 2] = Inr (7, 2)" "length (vi_enc rfc9000 7) < 2"
    "length (rf_packets f) < rf_cap f"
    using new by (simp_all add: rfc_Parse_seven rfc_small del: vi_enc_rfc9000)
  from long_flow_id_corrupts_packet [OF rfc.quicvarint_axioms sample7_ok this(1,2) f(1,2) new(4) this(3),
    of "\<lambda>_. None" "out_deref sample_world" "out_close sample_world"]
  show ?thesis
    using new by simp blast
qed

section \<open>Logging after the end\<close>

text \<open>The qlog recorder is used after it was closed. \<open>Close\<close> closes it when the session's own
  goroutines are gone, but a send stream the application still holds records an event for every
  packet it frames, closed session or not, and so does \<open>HandleDatagram\<close> called by the application.\<close>

lemma recorded_after_close:
  assumes "quicvarint V" and "session_ok s" and "s_closedErr s = None" and "s_qlog s = Some q"
    and "\<not> s_qlogClosed s" and "rss_qlog st = Some q" and "rss_pending st = []" and "packet_ok p"
    and "fits62 i"
  shows "\<exists>e s' es. Session_Close deref cr s = Done (e, s', es) \<and> last es = RecorderClose (recorder q) \<and>
    (\<exists>res st' es'. WriteRTPBytes V st p rf (0, Some err) = Done (res, st', es') \<and>
       (\<exists>ev. RecordEvent (recorder q) ev \<in> set es')) \<and>
    (\<exists>s'' es'. HandleDatagram V pick deref cr s' (vi_enc V i @ p) = Done (s'', es') \<and>
       (\<exists>ev. RecordEvent (recorder q) ev \<in> set es'))"
proof -
  let ?s1 = "shut cr ErrRoQNoError '''' s" and ?d = "vi_enc V i @ p"
  let ?s' = "?s1\<lparr>s_qlogClosed := True\<rparr>"
  have close: "Session_Close deref cr s = Done (cr_conn cr, ?s',
      shut_effects deref ErrRoQNoError '''' s @ [RecorderClose (recorder q)])"
    using s_close_eq [OF assms(2,3)] assms(4,5)
    by (simp add: Session_Close_def Close_finish_def shut_def qlogger_close_def)
  have ok: "session_ok ?s'"
    using shut_ok [OF assms(2), of cr ErrRoQNoError "''''"]
    by (simp add: session_ok_def recv_ok_def send_ok_def closed_ok_def)
  have q: "s_qlog ?s' = Some q"
    using assms(4) by (simp add: shut_def)
  have "vi_Parse V ?d = Inr (i, length (vi_enc V i))"
    using quicvarint.Parse_enc [OF assms(1,9)] .
  then have "\<exists>s'' es'. HandleDatagram V pick deref cr ?s' ?d = Done (s'', es') \<and>
      (\<exists>ev. RecordEvent (recorder q) ev \<in> set es')"
    by (rule quicvarint.HandleDatagram_parsed [OF assms(1) ok, of ?d i _ pick deref cr])
      (auto simp: q qlog_if_def qlogger_record_def)
  moreover have "\<exists>res st' es'. WriteRTPBytes V st p rf (0, Some err) = Done (res, st', es') \<and>
      (\<exists>ev. RecordEvent (recorder q) ev \<in> set es')"
    using quicvarint.write_frame_eq [OF assms(1,8) refl, of st 0 "Some err"] assms(6,7)
    by (auto simp: WriteRTPBytes_def qlog_if_def qlogger_record_def)
  ultimately show ?thesis
    using close by simp
qed

end
